theory Spec2Isabelle
  imports Main
begin

section \<open>AbortController and AbortSignal objects\<close>

text \<open>
  The terminator middleware of \<^verbatim>\<open>nice-grpc-server-middleware-terminator/src/index.ts\<close>
  works on platform objects that have an identity: every \<^verbatim>\<open>new AbortController()\<close> is a
  fresh object, its \<^verbatim>\<open>signal\<close> carries the latched \<^verbatim>\<open>aborted\<close> flag and the list of
  \<^verbatim>\<open>'abort'\<close> event listeners. Objects live in a heap and are named by their address;
  a controller and its signal share one address.

  The only listener the middleware installs is the closure
  \<^verbatim>\<open>const abortListener = () => { innerAbortController.abort(); }\<close> (lines 41-43),
  which is determined by the controller it captured. Listeners installed by other code
  are opaque to this development and have no effect on the modelled state.
\<close>

type_synonym addr = nat

datatype listener =
    AbortListener addr
  | ForeignListener nat

record abort_signal =
  aborted :: bool
  listeners :: "listener list"

type_synonym signal_heap = "abort_signal list"

fun listener_targets :: "listener list \<Rightarrow> addr list" where
  "listener_targets [] = []"
| "listener_targets (AbortListener c # ls) = c # listener_targets ls"
| "listener_targets (ForeignListener n # ls) = listener_targets ls"

definition unaborted :: "signal_heap \<Rightarrow> nat" where
  "unaborted h = length (filter (\<lambda>s. \<not> aborted s) h)"

lemma unaborted_update_less:
  "c < length h \<Longrightarrow> \<not> aborted (h ! c) \<Longrightarrow>
   unaborted (h[c := (h ! c)\<lparr>aborted := True\<rparr>]) < unaborted h"
proof (induction h arbitrary: c)
  case Nil
  then show ?case by simp
next
  case (Cons s h)
  show ?case
  proof (cases c)
    case 0
    with Cons.prems show ?thesis by (simp add: unaborted_def)
  next
    case (Suc d)
    with Cons.prems have "d < length h" "\<not> aborted (h ! d)" by simp_all
    from Cons.IH [OF this] Suc show ?thesis by (simp add: unaborted_def)
  qed
qed

text \<open>
  \<^verbatim>\<open>controller.abort()\<close>: when the signal is already aborted the call returns; otherwise
  the flag is set and the \<^verbatim>\<open>'abort'\<close> event is dispatched synchronously to the
  listeners in registration order. A listener of the middleware calls \<^verbatim>\<open>abort()\<close> on
  its own controller, which may dispatch in turn. The pending calls form a stack, kept
  here as a work list: the controllers a dispatch reaches are put in front of the
  callers' remaining work. An address outside the heap names no object and is skipped.
\<close>

function abort_run :: "signal_heap \<Rightarrow> addr list \<Rightarrow> signal_heap" where
  "abort_run h [] = h"
| "abort_run h (c # cs) =
     (if c < length h \<and> \<not> aborted (h ! c)
      then abort_run (h[c := (h ! c)\<lparr>aborted := True\<rparr>])
             (listener_targets (listeners (h ! c)) @ cs)
      else abort_run h cs)"
  by pat_completeness auto
termination
  by (relation "measures [\<lambda>(h, cs). unaborted h, \<lambda>(h, cs). length cs]")
     (auto simp: unaborted_update_less)


section \<open>Errors, call contexts and the shared state\<close>

text \<open>
  \<^verbatim>\<open>Status\<close> and \<^verbatim>\<open>ServerError\<close> come from \<^verbatim>\<open>nice-grpc-common\<close>; the status codes are
  the canonical gRPC codes. A \<^verbatim>\<open>catch (err)\<close> clause receives any thrown value: a
  \<^verbatim>\<open>ServerError\<close>, the \<^verbatim>\<open>AbortError\<close> of a cancelled wait, or something else.
\<close>

datatype Status =
    OK | CANCELLED | UNKNOWN | INVALID_ARGUMENT | DEADLINE_EXCEEDED | NOT_FOUND
  | ALREADY_EXISTS | PERMISSION_DENIED | RESOURCE_EXHAUSTED | FAILED_PRECONDITION
  | ABORTED | OUT_OF_RANGE | UNIMPLEMENTED | INTERNAL | UNAVAILABLE | DATA_LOSS
  | UNAUTHENTICATED

datatype error =
    ServerError Status string
  | AbortError
  | OtherError string

text \<open>
  A \<^verbatim>\<open>CallContext\<close> is an object: the field \<^verbatim>\<open>signal\<close> the type requires, and its
  other own properties (\<^verbatim>\<open>metadata\<close>, \<^verbatim>\<open>peer\<close>, \<^verbatim>\<open>header\<close>, \<^verbatim>\<open>trailer\<close>,
  \<^verbatim>\<open>sendHeader\<close>, the extensions of middlewares) by name. The method
  \<^verbatim>\<open>abortOnTerminate\<close> of lines 51-57 is a closure over the call's
  \<^verbatim>\<open>innerAbortController\<close>.
\<close>

datatype val =
    VStr string
  | VAbortOnTerminate addr
  | VOpaque nat

record CallContext =
  signal :: addr
  props :: "string \<rightharpoonup> val"

text \<open>
  The state one \<^verbatim>\<open>TerminatorMiddleware()\<close> instance works on: the two object heaps and
  the closure variables \<^verbatim>\<open>terminated\<close> (line 32) and \<^verbatim>\<open>abortControllers\<close> (line 33).
  A JavaScript \<^verbatim>\<open>Set\<close> iterates in insertion order and holds an element once, so it is
  a list without repetition.
\<close>

record world =
  signals :: signal_heap
  contexts :: "CallContext list"
  terminated :: bool
  abortControllers :: "addr list"

definition TerminatorMiddleware :: "signal_heap \<Rightarrow> CallContext list \<Rightarrow> world" where
  "TerminatorMiddleware h cs =
     \<lparr>signals = h, contexts = cs, terminated = False, abortControllers = []\<rparr>"

definition Set_add :: "'a \<Rightarrow> 'a list \<Rightarrow> 'a list" where
  "Set_add x xs = (if x \<in> set xs then xs else xs @ [x])"

definition Set_delete :: "'a \<Rightarrow> 'a list \<Rightarrow> 'a list" where
  "Set_delete x xs = removeAll x xs"

definition new_AbortController :: "world \<Rightarrow> addr \<times> world" where
  "new_AbortController w =
     (length (signals w), w\<lparr>signals := signals w @ [\<lparr>aborted = False, listeners = []\<rparr>]\<rparr>)"

text \<open>
  \<^verbatim>\<open>addEventListener\<close> ignores a listener that is already registered, so a listener is
  in the list at most once; \<^verbatim>\<open>removeEventListener\<close> takes it out of the list. A signal
  outside the heap names no object, and its \<^verbatim>\<open>aborted\<close> flag reads as unset.
\<close>

definition addEventListener :: "addr \<Rightarrow> listener \<Rightarrow> world \<Rightarrow> world" where
  "addEventListener sg l w =
     (if sg < length (signals w) \<and> l \<notin> set (listeners (signals w ! sg))
      then w\<lparr>signals := (signals w)
             [sg := (signals w ! sg)\<lparr>listeners := listeners (signals w ! sg) @ [l]\<rparr>]\<rparr>
      else w)"

definition removeEventListener :: "addr \<Rightarrow> listener \<Rightarrow> world \<Rightarrow> world" where
  "removeEventListener sg l w =
     (if sg < length (signals w)
      then w\<lparr>signals := (signals w)
             [sg := (signals w ! sg)\<lparr>listeners := removeAll l (listeners (signals w ! sg))\<rparr>]\<rparr>
      else w)"

definition abort :: "addr \<Rightarrow> world \<Rightarrow> world" where
  "abort c w = w\<lparr>signals := abort_run (signals w) [c]\<rparr>"

definition is_aborted :: "world \<Rightarrow> addr \<Rightarrow> bool" where
  "is_aborted w sg = (sg < length (signals w) \<and> aborted (signals w ! sg))"

section \<open>The terminator middleware\<close>

text \<open>Lines 51-57, the method put into the context handed downstream.\<close>

definition abortOnTerminate :: "addr \<Rightarrow> world \<Rightarrow> world" where
  "abortOnTerminate innerAbortController w =
     (if \<not> terminated w
      then w\<lparr>abortControllers := Set_add innerAbortController (abortControllers w)\<rparr>
      else abort innerAbortController w)"

text \<open>Lines 72-84.\<close>

definition terminate :: "world \<Rightarrow> world" where
  "terminate w =
     (if terminated w then w
      else (fold abort (abortControllers w) (w\<lparr>terminated := True\<rparr>))
             \<lparr>abortControllers := []\<rparr>)"

text \<open>
  Lines 49-57: the object literal \<^verbatim>\<open>{...context, signal: ..., abortOnTerminate() {...}}\<close>
  copies the own properties of \<^verbatim>\<open>context\<close> into a new object and then sets two of them.
\<close>

definition next_context :: "CallContext \<Rightarrow> addr \<Rightarrow> CallContext" where
  "next_context context innerAbortController =
     context\<lparr>signal := innerAbortController,
             props := (props context)(''abortOnTerminate'' \<mapsto>
                        VAbortOnTerminate innerAbortController)\<rparr>"

definition new_object :: "CallContext \<Rightarrow> world \<Rightarrow> addr \<times> world" where
  "new_object c w = (length (contexts w), w\<lparr>contexts := contexts w @ [c]\<rparr>)"

text \<open>
  Lines 39-58 up to the point where \<^verbatim>\<open>call.next\<close> receives its arguments. The result
  names the inner controller and the context object passed downstream.
\<close>

definition middleware_begin :: "addr \<Rightarrow> world \<Rightarrow> (addr \<times> addr) \<times> world" where
  "middleware_begin context w =
     (let (innerAbortController, w1) = new_AbortController w;
          w2 = addEventListener (signal (contexts w1 ! context))
                 (AbortListener innerAbortController) w1;
          (inner_context, w3) =
             new_object (next_context (contexts w2 ! context) innerAbortController) w2
      in ((innerAbortController, inner_context), w3))"

text \<open>
  How the iteration of \<^verbatim>\<open>call.next(...)\<close> under \<^verbatim>\<open>yield*\<close> ends: the inner sequence
  returns its terminal value (a response or nothing), an error is thrown, or the
  consumer of the middleware's own sequence stops early by calling \<^verbatim>\<open>return()\<close> while
  the middleware is suspended at a \<^verbatim>\<open>yield\<close>. The responses yielded before that pass
  through \<^verbatim>\<open>yield*\<close> untouched.
\<close>

datatype 'r ending =
    Return "'r option"
  | Throw error
  | EarlyStop

record 'r delegated =
  yielded :: "'r list"
  ending :: "'r ending"

text \<open>Lines 59-64.\<close>

definition middleware_catch :: "addr \<Rightarrow> addr \<Rightarrow> error \<Rightarrow> world \<Rightarrow> error" where
  "middleware_catch context innerAbortController err w =
     (if is_aborted w innerAbortController \<and> \<not> is_aborted w (signal (contexts w ! context))
      then ServerError UNAVAILABLE ''Server shutting down''
      else err)"

text \<open>Lines 65-68.\<close>

definition middleware_finally :: "addr \<Rightarrow> addr \<Rightarrow> world \<Rightarrow> world" where
  "middleware_finally context innerAbortController w =
     (let w1 = removeEventListener (signal (contexts w ! context))
                 (AbortListener innerAbortController) w
      in w1\<lparr>abortControllers := Set_delete innerAbortController (abortControllers w1)\<rparr>)"

text \<open>Lines 47-68 from the moment the delegation has ended.\<close>

definition middleware_end ::
  "addr \<Rightarrow> addr \<Rightarrow> 'r delegated \<Rightarrow> world \<Rightarrow> 'r delegated \<times> world" where
  "middleware_end context innerAbortController d w =
     (let e = (case ending d of
                 Throw err \<Rightarrow> Throw (middleware_catch context innerAbortController err w)
               | other \<Rightarrow> other)
      in (d\<lparr>ending := e\<rparr>, middleware_finally context innerAbortController w))"

text \<open>
  What can happen to the shared state while a call is suspended in its delegation:
  code holding an \<^verbatim>\<open>abortOnTerminate\<close> closure invokes it; \<^verbatim>\<open>terminate()\<close> is invoked;
  the owner of a controller aborts it (the dispatcher on peer cancellation or deadline);
  code assigns a property of a context object it holds; another call enters the
  middleware; another call runs its \<^verbatim>\<open>finally\<close> block.
\<close>

datatype event =
    InvokeAbortOnTerminate addr
  | InvokeTerminate
  | InvokeAbort addr
  | AssignProp addr string val
  | CallBegin addr
  | CallFinally addr addr

definition assign_prop :: "addr \<Rightarrow> string \<Rightarrow> val \<Rightarrow> world \<Rightarrow> world" where
  "assign_prop a k v w =
     (if a < length (contexts w)
      then w\<lparr>contexts := (contexts w)
             [a := (contexts w ! a)\<lparr>props := (props (contexts w ! a))(k \<mapsto> v)\<rparr>]\<rparr>
      else w)"

fun step :: "event \<Rightarrow> world \<Rightarrow> world" where
  "step (InvokeAbortOnTerminate c) w = abortOnTerminate c w"
| "step InvokeTerminate w = terminate w"
| "step (InvokeAbort c) w = abort c w"
| "step (AssignProp a k v) w = assign_prop a k v w"
| "step (CallBegin context) w =
     (if context < length (contexts w) then snd (middleware_begin context w) else w)"
| "step (CallFinally context c) w =
     (if context < length (contexts w) then middleware_finally context c w else w)"

definition run :: "event list \<Rightarrow> world \<Rightarrow> world" where
  "run evs w = fold step evs w"

text \<open>
  One call through \<^verbatim>\<open>terminatorMiddleware\<close> (lines 35-69): \<open>evs\<close> is what happens to the
  shared state while \<^verbatim>\<open>call.next\<close> is being iterated, \<open>d\<close> is what that iteration
  produces.
\<close>

definition terminatorMiddleware ::
  "addr \<Rightarrow> event list \<Rightarrow> 'r delegated \<Rightarrow> world \<Rightarrow> 'r delegated \<times> world" where
  "terminatorMiddleware context evs d w =
     (let ((innerAbortController, inner_context), w1) = middleware_begin context w
      in middleware_end context innerAbortController d (run evs w1))"


text \<open>
  Once \<^verbatim>\<open>terminated\<close> is set the set of registered controllers is empty: the state
  every instance starts in has this property and every operation keeps it.
\<close>

definition drained :: "world \<Rightarrow> bool" where
  "drained w \<longleftrightarrow> (terminated w \<longrightarrow> abortControllers w = [])"

text \<open>
  A controller is registered when it is in the set of an instance that has not been
  terminated.
\<close>

definition registered :: "addr \<Rightarrow> world \<Rightarrow> bool" where
  "registered c w \<longleftrightarrow>
     \<not> terminated w \<and> c \<in> set (abortControllers w) \<and> distinct (abortControllers w)"

text \<open>
  The link lines 41-45 set up between the signal a call received and its inner
  controller: the listener is attached, and the inner signal is aborted whenever the
  outer one is.
\<close>

definition wired :: "addr \<Rightarrow> addr \<Rightarrow> world \<Rightarrow> bool" where
  "wired outer inner w \<longleftrightarrow>
     outer < length (signals w) \<and> inner < length (signals w)
     \<and> AbortListener inner \<in> set (listeners (signals w ! outer))
     \<and> (aborted (signals w ! outer) \<longrightarrow> aborted (signals w ! inner))"

section \<open>The middleware chain of the server\<close>

text \<open>
  The test \<^verbatim>\<open>chain\<close> builds a server with two test middlewares around a unary handler and
  compares the recorded actions. The messages of the test service carry an \<^verbatim>\<open>id\<close>.
\<close>

datatype TestRequest = TestRequest (request_id: string)

datatype TestResponse = TestResponse (response_id: string)

text \<open>
  The objects pushed to \<^verbatim>\<open>actions\<close>, as the snapshot of the test prints them: the \<^verbatim>\<open>type\<close>
  and the other fields. The handler's own entry has the type \<^verbatim>\<open>request\<close> and the two
  context values it read.
\<close>

datatype action =
    MiddlewareStart string bool bool
  | MiddlewareRequest string TestRequest
  | HandlerRequest string "string option" "string option"
  | MiddlewareResponse string TestResponse

text \<open>
  Modelled from the spec: \<^verbatim>\<open>call.method\<close>, the method descriptor with its
  \<^verbatim>\<open>requestStream\<close> and \<^verbatim>\<open>responseStream\<close> booleans (section 4.C); the descriptor type is
  not in the sources.
\<close>

record MethodDescriptor =
  requestStream :: bool
  responseStream :: bool

text \<open>
  Modelled from the spec: the extension slots of a call context (key to value) that
  middlewares attach and handlers read (section 3); \<^verbatim>\<open>call.next(request, context)\<close>, which
  returns the lazy response sequence of the next middleware or of the handler; and a
  middleware, a function of the call and the context to a lazy sequence of responses with
  a terminal response or nothing (section 4.C). The shared \<^verbatim>\<open>actions\<close> array of the test is
  threaded through. None of these types is in the sources.
\<close>

type_synonym extensions = "string \<rightharpoonup> string"

type_synonym ('q, 'r) next_fn =
  "'q \<Rightarrow> extensions \<Rightarrow> action list \<Rightarrow> 'r delegated \<times> action list"

type_synonym ('q, 'r) middleware =
  "MethodDescriptor \<Rightarrow> 'q \<Rightarrow> ('q, 'r) next_fn \<Rightarrow> extensions \<Rightarrow> action list
     \<Rightarrow> 'r delegated \<times> action list"

text \<open>
  Modelled from the spec: \<^verbatim>\<open>createServer()\<close> and \<^verbatim>\<open>Server.use(middleware)\<close> (section 6),
  which are not in the sources. A server is the list of its middlewares in the order of
  the \<^verbatim>\<open>use\<close> calls.
\<close>

definition createServer :: "('q, 'r) middleware list" where
  "createServer = []"

definition use :: "('q, 'r) middleware \<Rightarrow> ('q, 'r) middleware list \<Rightarrow> ('q, 'r) middleware list" where
  "use m server = server @ [m]"

text \<open>
  Modelled from the spec: the composition law of section 4.C,
  \<^verbatim>\<open>server.use(m1).use(m2)\<close> applied to handler \<^verbatim>\<open>h\<close> yields
  \<^verbatim>\<open>m1(., ctx -> m2(., ctx -> h(., ctx)))\<close>; the composing code of the server is not in the
  sources.
\<close>

fun chain :: "('q, 'r) middleware list \<Rightarrow> MethodDescriptor \<Rightarrow> ('q, 'r) next_fn \<Rightarrow> ('q, 'r) next_fn" where
  "chain [] meth h = h"
| "chain (m # ms) meth h = (\<lambda>request context. m meth request (chain ms meth h) context)"

text \<open>
  Modelled from the spec: \<^verbatim>\<open>createTestServerMiddleware(contextOverride, actions, prefix)\<close>
  of \<^verbatim>\<open>utils/testServerMiddleware\<close>, which is not in the sources. For a unary method
  it observes the call start with the two stream flags, observes the request, delegates
  with the context extended by its override (section 4.C, context override), and observes
  the terminal response; the entries are the ones the snapshot of the test shows.
\<close>

definition createTestServerMiddleware ::
  "(string \<times> string) list \<Rightarrow> string \<Rightarrow> (TestRequest, TestResponse) middleware" where
  "createTestServerMiddleware contextOverride actionTypePrefix meth request next context actions =
     (let actions1 = actions @ [MiddlewareStart (actionTypePrefix @ ''start'')
                                  (requestStream meth) (responseStream meth)];
          actions2 = actions1 @ [MiddlewareRequest (actionTypePrefix @ ''request'') request];
          (d, actions3) = next request (context ++ map_of contextOverride) actions2
      in case ending d of
           Return (Some response) \<Rightarrow>
             (d, actions3 @ [MiddlewareResponse (actionTypePrefix @ ''response'') response])
         | _ \<Rightarrow> (d, actions3))"

text \<open>
  Modelled from the spec: the adapter of section 4.B, step 2, which is not in the sources:
  for a unary handler the return value is emitted as the single terminal response.
\<close>

definition unary ::
  "('q \<Rightarrow> extensions \<Rightarrow> action list \<Rightarrow> 'r \<times> action list) \<Rightarrow> ('q, 'r) next_fn" where
  "unary handler request context actions =
     (let (response, actions1) = handler request context actions
      in (\<lparr>yielded = [], ending = Return (Some response)\<rparr>, actions1))"

text \<open>The handler \<^verbatim>\<open>testUnary\<close> of the test \<^verbatim>\<open>chain\<close> (lines 28-35).\<close>

definition testUnary ::
  "TestRequest \<Rightarrow> extensions \<Rightarrow> action list \<Rightarrow> TestResponse \<times> action list" where
  "testUnary request context actions =
     (TestResponse (request_id request),
      actions @ [HandlerRequest ''request'' (context ''test1'') (context ''test2'')])"

text \<open>The server of the test \<^verbatim>\<open>chain\<close> (lines 11-25) and the method it calls.\<close>

definition chain_server :: "(TestRequest, TestResponse) middleware list" where
  "chain_server =
     use (createTestServerMiddleware [(''test2'', ''test-value-2'')] ''middleware2-'')
       (use (createTestServerMiddleware [(''test1'', ''test-value-1'')] ''middleware1-'')
          createServer)"

definition unary_method :: MethodDescriptor where
  "unary_method = \<lparr>requestStream = False, responseStream = False\<rparr>"

section \<open>Server dispatcher, transport and client driver\<close>

text \<open>
  Modelled from the spec: the metadata container of sections 3 and 4.A, an ordered
  mapping from a key to its sequence of values, with the two operations the tests use;
  the rejection of forbidden keys is left out. The container is not in the sources.
\<close>

type_synonym Metadata = "(string \<times> string list) list"

fun Metadata_set :: "string \<Rightarrow> string list \<Rightarrow> Metadata \<Rightarrow> Metadata" where
  "Metadata_set key vals [] = [(key, vals)]"
| "Metadata_set key vals ((k, vs) # m) =
     (if k = key then (key, vals) # m else (k, vs) # Metadata_set key vals m)"

definition getAll :: "string \<Rightarrow> Metadata \<Rightarrow> string list" where
  "getAll key m = (case map_of m key of None \<Rightarrow> [] | Some vs \<Rightarrow> vs)"

text \<open>Keys ending in \<^verbatim>\<open>-bin\<close> carry binary values (section 3).\<close>

definition binary_key :: "string \<Rightarrow> bool" where
  "binary_key key = (drop (length key - 4) key = ''-bin'')"

fun join :: "string \<Rightarrow> string list \<Rightarrow> string" where
  "join sep [] = []"
| "join sep [v] = v"
| "join sep (v # w # vs) = v @ sep @ join sep (w # vs)"

text \<open>
  The transport is an external collaborator. What it does to metadata is taken from the
  tests of \<^verbatim>\<open>clientStreaming.ts\<close>: header and trailer values set as
  \<^verbatim>\<open>['test-value-1', 'test-value-2']\<close> under a text key are read on the other side as
  \<^verbatim>\<open>["test-value-1, test-value-2"]\<close> (tests \<^verbatim>\<open>metadata\<close>, \<^verbatim>\<open>implicit header sending\<close> and
  \<^verbatim>\<open>error\<close>), while the values of a \<^verbatim>\<open>-bin\<close> key arrive one by one (test \<^verbatim>\<open>metadata\<close>).
\<close>

definition delivered :: "Metadata \<Rightarrow> Metadata" where
  "delivered m = map (\<lambda>(key, vals). if binary_key key then (key, vals)
                                       else (key, [join '', '' vals])) m"

text \<open>
  Modelled from the spec: the frames of the transport contract of section 6
  (\<^verbatim>\<open>sendInitialMetadata\<close>, \<^verbatim>\<open>sendMessage\<close>, \<^verbatim>\<open>sendTrailer(meta, status, details)\<close>).
\<close>

datatype 'r frame =
    HeaderFrame Metadata
  | MessageFrame 'r
  | TrailerFrame Metadata Status string

fun transport :: "'r frame \<Rightarrow> 'r frame" where
  "transport (HeaderFrame m) = HeaderFrame (delivered m)"
| "transport (MessageFrame r) = MessageFrame r"
| "transport (TrailerFrame m status details) = TrailerFrame (delivered m) status details"

definition is_trailer :: "'r frame \<Rightarrow> bool" where
  "is_trailer f = (case f of TrailerFrame m status details \<Rightarrow> True | _ \<Rightarrow> False)"

text \<open>
  Modelled from the spec: the server side of a call as the dispatcher of section 4.B
  keeps it, which is not in the sources: the outgoing \<^verbatim>\<open>header\<close> and \<^verbatim>\<open>trailer\<close> of the
  context, whether the header has been sent, the \<^verbatim>\<open>aborted\<close> flag of the context signal,
  and the frames handed to the transport.
\<close>

record 'r server_call =
  header :: Metadata
  trailer :: Metadata
  header_sent :: bool
  signal_aborted :: bool
  frames :: "'r frame list"

definition new_server_call :: "'r server_call" where
  "new_server_call =
     \<lparr>header = [], trailer = [], header_sent = False, signal_aborted = False, frames = []\<rparr>"

text \<open>
  Modelled from the spec: \<^verbatim>\<open>sendHeader()\<close> is idempotent and moves the header from
  mutable to sent (section 3); the header goes out before the first response frame and
  the trailer after all responses, each once (lifecycle invariants 1 and 2).
\<close>

definition sendHeader :: "'r server_call \<Rightarrow> 'r server_call" where
  "sendHeader c =
     (if header_sent c then c
      else c\<lparr>header_sent := True, frames := frames c @ [HeaderFrame (header c)]\<rparr>)"

definition send_response :: "'r \<Rightarrow> 'r server_call \<Rightarrow> 'r server_call" where
  "send_response r c = (let c1 = sendHeader c in c1\<lparr>frames := frames c1 @ [MessageFrame r]\<rparr>)"

definition send_trailer :: "Status \<Rightarrow> string \<Rightarrow> 'r server_call \<Rightarrow> 'r server_call" where
  "send_trailer status details c =
     (let c1 = sendHeader c in c1\<lparr>frames := frames c1 @ [TrailerFrame (trailer c1) status details]\<rparr>)"

definition sent_trailer :: "'r server_call \<Rightarrow> (Metadata \<times> Status \<times> string) option" where
  "sent_trailer c =
     (case last (frames c) of
        TrailerFrame m status details \<Rightarrow> Some (m, status, details)
      | _ \<Rightarrow> None)"

text \<open>
  Modelled from the spec: what a handler can do to its call through the context (set
  header or trailer metadata, send the header) and by yielding a response, and how it
  ends. A handler has no way to abort its own signal or to write frames.
\<close>

datatype 'r handler_action =
    HeaderSet string "string list"
  | TrailerSet string "string list"
  | SendHeader
  | Yield 'r

record 'r handler_run =
  steps :: "'r handler_action list"
  outcome :: "'r ending"

fun handler_step :: "'r handler_action \<Rightarrow> 'r server_call \<Rightarrow> 'r server_call" where
  "handler_step (HeaderSet key vals) c =
     (if header_sent c then c else c\<lparr>header := Metadata_set key vals (header c)\<rparr>)"
| "handler_step (TrailerSet key vals) c = c\<lparr>trailer := Metadata_set key vals (trailer c)\<rparr>"
| "handler_step SendHeader c = sendHeader c"
| "handler_step (Yield r) c = send_response r c"

text \<open>
  Modelled from the spec: step 4 of the per-call algorithm of section 4.B. On normal
  completion the trailer has status \<^verbatim>\<open>OK\<close>; on \<^verbatim>\<open>ServerError(status, details)\<close> it has that
  status and those details and keeps the trailer metadata set before the error; on any
  other error the status is \<^verbatim>\<open>UNKNOWN\<close> with a sanitized message, whose text the spec
  leaves open. Once the signal has been aborted by a peer cancellation nothing more is
  sent, whatever the handler returns or throws.
\<close>

definition sanitized_message :: string where
  "sanitized_message = ''Unknown server error occurred''"

fun finish :: "'r ending \<Rightarrow> 'r server_call \<Rightarrow> 'r server_call" where
  "finish (Return None) c = send_trailer OK [] c"
| "finish (Return (Some r)) c = send_trailer OK [] (send_response r c)"
| "finish (Throw (ServerError status details)) c = send_trailer status details c"
| "finish (Throw err) c = send_trailer UNKNOWN sanitized_message c"
| "finish EarlyStop c = c"

definition dispatch :: "'r handler_run \<Rightarrow> 'r server_call" where
  "dispatch h =
     (let c = fold handler_step (steps h) new_server_call
      in if signal_aborted c then c else finish (outcome h) c)"

text \<open>
  Modelled from the spec: \<^verbatim>\<open>ClientError(path, status, details, trailerMetadata)\<close> and the
  \<^verbatim>\<open>AbortError\<close> raised to the consumer of a cancelled call (sections 3 and 7), and the
  client call driver of section 4.D, steps 4 to 6, which is not in the sources:
  \<^verbatim>\<open>onHeader\<close> and \<^verbatim>\<open>onTrailer\<close> receive the metadata that arrived, and a trailer with a
  status other than \<^verbatim>\<open>OK\<close> settles the call with a \<^verbatim>\<open>ClientError\<close>. What the driver does
  with an \<^verbatim>\<open>OK\<close> trailer and no response is not in the spec; an error is assumed.
\<close>

datatype client_error =
    ClientError string Status string Metadata
  | ClientAbortError

record 'r client_call =
  result :: "(client_error + 'r) option"
  onHeader :: "Metadata list"
  onTrailer :: "Metadata list"
  received :: "'r list"

definition new_client_call :: "'r client_call" where
  "new_client_call = \<lparr>result = None, onHeader = [], onTrailer = [], received = []\<rparr>"

fun client_receive :: "string \<Rightarrow> 'r frame \<Rightarrow> 'r client_call \<Rightarrow> 'r client_call" where
  "client_receive path (HeaderFrame m) k = k\<lparr>onHeader := onHeader k @ [m]\<rparr>"
| "client_receive path (MessageFrame r) k = k\<lparr>received := received k @ [r]\<rparr>"
| "client_receive path (TrailerFrame m status details) k =
     (if result k \<noteq> None then k
      else k\<lparr>onTrailer := onTrailer k @ [m],
             result :=
               (if status = OK
                then (case received k of
                        r # _ \<Rightarrow> Some (Inr r)
                      | [] \<Rightarrow> Some (Inl (ClientError path INTERNAL
                                             ''Not enough responses received'' m)))
                else Some (Inl (ClientError path status details m)))\<rparr>)"

definition client_call :: "string \<Rightarrow> 'r frame list \<Rightarrow> 'r client_call" where
  "client_call path fs = fold (client_receive path) (map transport fs) new_client_call"

text \<open>The path of the method the tests of \<^verbatim>\<open>clientStreaming.ts\<close> call.\<close>

definition test_path :: string where
  "test_path = ''/nice_grpc.test.Test/TestClientStream''"

text \<open>
  The handler \<^verbatim>\<open>testClientStream\<close> of the test \<^verbatim>\<open>error\<close> (\<^verbatim>\<open>clientStreaming.ts\<close>, lines
  242-251): it sets the trailer and throws on the first request.
\<close>

definition testClientStream_error :: "TestRequest list \<Rightarrow> TestResponse handler_run" where
  "testClientStream_error request =
     (case request of
        item # _ \<Rightarrow>
          \<lparr>steps = [TrailerSet ''test'' [''test-value-1'', ''test-value-2'']],
           outcome = Throw (ServerError NOT_FOUND (request_id item))\<rparr>
      | [] \<Rightarrow>
          \<lparr>steps = [TrailerSet ''test'' [''test-value-1'', ''test-value-2'']],
           outcome = Return (Some (TestResponse []))\<rparr>)"

section \<open>Cancellation of a client-streaming call\<close>

text \<open>
  Modelled from the spec: \<^verbatim>\<open>forever(signal)\<close> and \<^verbatim>\<open>isAbortError\<close> of the library
  \<^verbatim>\<open>abort-controller-x\<close>, which the handler of the test \<^verbatim>\<open>cancel\<close> uses, after section 5:
  a wait on the signal does not end by itself, and on cancellation an error recognised as
  an abort is thrown into the suspension. A handler that has not been invoked yet waits
  for nothing.
\<close>

definition isAbortError :: "error \<Rightarrow> bool" where
  "isAbortError err = (err = AbortError)"

datatype handler_state =
    NotStarted
  | AwaitingForever
  | Rejected error

definition forever :: "bool \<Rightarrow> handler_state" where
  "forever aborted_signal = (if aborted_signal then Rejected AbortError else AwaitingForever)"

text \<open>
  Modelled from the spec: what the client side of the transport contract of section 6
  carries to the server, \<^verbatim>\<open>open(method, headers)\<close>, \<^verbatim>\<open>sendMessage\<close> and \<^verbatim>\<open>cancel()\<close>. The
  transport is an external collaborator: it is taken to deliver what was handed to it,
  in the order it was handed over, one frame at a time.
\<close>

datatype client_frame =
    Open
  | Message TestRequest
  | Cancel

text \<open>
  The request sequence \<^verbatim>\<open>createRequest\<close> of the test \<^verbatim>\<open>cancel\<close> (\<^verbatim>\<open>clientStreaming.ts\<close>,
  lines 344-358) yields the requests \<^verbatim>\<open>test-0\<close>, \<^verbatim>\<open>test-1\<close>, ... without end and resolves
  \<^verbatim>\<open>requestIterableFinish\<close> in its \<^verbatim>\<open>finally\<close> block; its state is the counter \<^verbatim>\<open>i\<close> and
  whether that block has run. The decimal digits of the counter:
\<close>

fun show_nat :: "nat \<Rightarrow> string" where
  "show_nat n =
     (if n < 10 then [''0123456789'' ! n]
      else show_nat (n div 10) @ [''0123456789'' ! (n mod 10)])"

text \<open>
  Modelled from the spec: one client-streaming call of the test \<^verbatim>\<open>cancel\<close> from end to
  end; neither the client driver nor the dispatcher is in the sources. On the client
  side: the state of the driver with the pending promise, and the request sequence. In
  between: the frames under way to the server and to the client. On the server side: the
  call as the dispatcher keeps it, with the \<^verbatim>\<open>aborted\<close> flag of the context signal, the
  requests received, the state of the handler (lines 317-329), and the two deferreds the
  handler resolves, \<^verbatim>\<open>serverRequestStartDeferred\<close> when it is invoked and
  \<^verbatim>\<open>serverAbortDeferred\<close> when it catches an abort error.

  A call starts when the driver has constructed the transport call (section 4.D, steps 1
  and 2): the opening frame is under way and the handler has not been invoked.
\<close>

record streaming_call =
  client :: "TestResponse client_call"
  next_index :: nat
  requestIterableFinish :: bool
  to_server :: "client_frame list"
  to_client :: "TestResponse frame list"
  server :: "TestResponse server_call"
  server_requests :: "TestRequest list"
  handler :: handler_state
  serverRequestStartDeferred :: bool
  serverAbortDeferred :: bool

definition new_streaming_call :: streaming_call where
  "new_streaming_call =
     \<lparr>client = new_client_call, next_index = 0, requestIterableFinish = False,
      to_server = [Open], to_client = [], server = new_server_call, server_requests = [],
      handler = NotStarted, serverRequestStartDeferred = False, serverAbortDeferred = False\<rparr>"

text \<open>
  What can happen to the call, one thing at a time: the \<^verbatim>\<open>CallOptions.signal\<close> fires; the
  driver takes the next request from the request sequence and writes it; the transport
  delivers the oldest frame under way to the server; the transport delivers the oldest
  frame under way to the client.
\<close>

datatype call_event =
    SignalFires
  | ProducerYields
  | DeliverToServer
  | DeliverToClient

text \<open>
  The \<^verbatim>\<open>catch\<close> clause of the handler (lines 322-328) and, modelled from the spec, what the
  dispatcher does when the handler has thrown (section 4.B, step 4): the handler resolves
  \<^verbatim>\<open>serverAbortDeferred\<close> if \<^verbatim>\<open>isAbortError\<close> holds of what it caught and rethrows; the
  dispatcher sends nothing more once the signal was aborted by a peer cancellation, and
  the trailer of the error otherwise.
\<close>

definition handler_settles :: "streaming_call \<Rightarrow> streaming_call" where
  "handler_settles k =
     (case handler k of
        Rejected err \<Rightarrow>
          (let k1 = k\<lparr>serverAbortDeferred := serverAbortDeferred k \<or> isAbortError err\<rparr>;
               c = (if signal_aborted (server k1) then server k1
                    else finish (Throw err) (server k1))
           in k1\<lparr>server := c,
                 to_client := to_client k1 @ drop (length (frames (server k1))) (frames c)\<rparr>)
      | _ \<Rightarrow> k)"

text \<open>
  Modelled from the spec: the dispatcher on the arrival of a frame (section 4.B, step 1,
  and section 5). The opening frame makes it invoke the handler, which resolves
  \<^verbatim>\<open>serverRequestStartDeferred\<close> (line 318) and waits in \<^verbatim>\<open>forever(signal)\<close>; a message goes
  to the request sequence of the handler, which this handler never reads; a cancellation
  by the peer fires the signal of the context, which unblocks a handler suspended on it.
\<close>

fun server_receive :: "client_frame \<Rightarrow> streaming_call \<Rightarrow> streaming_call" where
  "server_receive Open k =
     (if handler k \<noteq> NotStarted then k
      else handler_settles
             (k\<lparr>serverRequestStartDeferred := True,
                 handler := forever (signal_aborted (server k))\<rparr>))"
| "server_receive (Message q) k = k\<lparr>server_requests := server_requests k @ [q]\<rparr>"
| "server_receive Cancel k =
     (let k1 = k\<lparr>server := (server k)\<lparr>signal_aborted := True\<rparr>\<rparr>
      in if handler k1 = AwaitingForever
         then handler_settles (k1\<lparr>handler := forever (signal_aborted (server k1))\<rparr>)
         else k1)"

text \<open>
  Modelled from the spec: the client call driver of section 4.D. Step 7: if the signal
  fires before completion the driver cancels the transport call, drains the request
  sequence through its cancellation path, so that its \<^verbatim>\<open>finally\<close> block runs, and raises an
  \<^verbatim>\<open>AbortError\<close> to the consumer. Step 3: it writes each request of the sequence to the
  transport. Steps 4 to 6: a frame that arrives goes to the driver, and when the call
  settles the request sequence is cleaned up (section 8, invariants). A settled call
  stays as it is.
\<close>

fun call_step :: "call_event \<Rightarrow> streaming_call \<Rightarrow> streaming_call" where
  "call_step SignalFires k =
     (if result (client k) \<noteq> None then k
      else k\<lparr>client := (client k)\<lparr>result := Some (Inl ClientAbortError)\<rparr>,
             to_server := to_server k @ [Cancel],
             requestIterableFinish := True\<rparr>)"
| "call_step ProducerYields k =
     (if result (client k) \<noteq> None \<or> requestIterableFinish k then k
      else k\<lparr>to_server := to_server k
                 @ [Message (TestRequest (''test-'' @ show_nat (next_index k)))],
             next_index := Suc (next_index k)\<rparr>)"
| "call_step DeliverToServer k =
     (case to_server k of
        [] \<Rightarrow> k
      | f # fs \<Rightarrow> server_receive f (k\<lparr>to_server := fs\<rparr>))"
| "call_step DeliverToClient k =
     (case to_client k of
        [] \<Rightarrow> k
      | f # fs \<Rightarrow>
          (if result (client k) \<noteq> None then k\<lparr>to_client := fs\<rparr>
           else (let c = client_receive test_path (transport f) (client k)
                 in k\<lparr>to_client := fs, client := c,
                      requestIterableFinish := requestIterableFinish k \<or> result c \<noteq> None\<rparr>)))"

definition call_run :: "call_event list \<Rightarrow> streaming_call \<Rightarrow> streaming_call" where
  "call_run evs k = fold call_step evs k"




section \<open>Example states\<close>

text \<open>
  Two calls in flight: the contexts 0 and 1 carry the outer signals 0 and 2, the
  controllers 1 and 3 are the inner ones, and the first call has registered itself.
\<close>

definition two_calls :: world where
  "two_calls =
     \<lparr>signals = [\<lparr>aborted = False, listeners = [AbortListener 1]\<rparr>,
                 \<lparr>aborted = False, listeners = []\<rparr>,
                 \<lparr>aborted = False, listeners = [AbortListener 3]\<rparr>,
                 \<lparr>aborted = False, listeners = []\<rparr>],
      contexts = [\<lparr>signal = 0, props = Map.empty\<rparr>, \<lparr>signal = 2, props = Map.empty\<rparr>],
      terminated = False,
      abortControllers = [1]\<rparr>"


text \<open>
  An instance with one call context on signal 0, and the state after that call has
  entered the middleware: controller 1 is the inner one, object 1 the context passed on.
\<close>

definition one_context :: world where
  "one_context = TerminatorMiddleware [\<lparr>aborted = False, listeners = []\<rparr>]
                   [\<lparr>signal = 0, props = Map.empty\<rparr>]"

definition begun :: world where
  "begun = \<lparr>signals = [\<lparr>aborted = False, listeners = [AbortListener 1]\<rparr>,
                        \<lparr>aborted = False, listeners = []\<rparr>],
             contexts = [\<lparr>signal = 0, props = Map.empty\<rparr>,
                         \<lparr>signal = 1, props = [''abortOnTerminate'' \<mapsto> VAbortOnTerminate 1]\<rparr>],
             terminated = False, abortControllers = []\<rparr>"

text \<open>
  A call whose context signal was aborted before the middleware is entered, as when the
  peer cancels while an outer middleware is still waiting before it delegates.
\<close>

definition cancelled_before_entry :: world where
  "cancelled_before_entry =
     TerminatorMiddleware [\<lparr>aborted = True, listeners = []\<rparr>] [\<lparr>signal = 0, props = Map.empty\<rparr>]"

section \<open>Properties of abort dispatch\<close>

lemma length_abort_run [simp]: "length (abort_run h cs) = length h"
  by (induction h cs rule: abort_run.induct) simp_all

lemma listeners_abort_run_nth [simp]:
  "i < length h \<Longrightarrow> listeners (abort_run h cs ! i) = listeners (h ! i)"
  by (induction h cs rule: abort_run.induct) (simp_all add: nth_list_update)

lemma aborted_abort_run_mono:
  "i < length h \<Longrightarrow> aborted (h ! i) \<Longrightarrow> aborted (abort_run h cs ! i)"
  by (induction h cs rule: abort_run.induct) (simp_all add: nth_list_update)

lemma aborted_abort_run_mem:
  "c \<in> set cs \<Longrightarrow> c < length h \<Longrightarrow> aborted (abort_run h cs ! c)"
proof (induction h cs rule: abort_run.induct)
  case (1 h)
  then show ?case by simp
next
  case (2 h d cs)
  show ?case
  proof (cases "d < length h \<and> \<not> aborted (h ! d)")
    case True
    show ?thesis
    proof (cases "c = d")
      case True
      with 2 \<open>d < length h \<and> \<not> aborted (h ! d)\<close> show ?thesis
        by (simp add: aborted_abort_run_mono)
    next
      case False
      with 2 True show ?thesis by simp
    qed
  next
    case False
    show ?thesis
    proof (cases "c = d")
      case True
      with 2 False show ?thesis by (simp add: aborted_abort_run_mono)
    next
      case c: False
      with 2 False show ?thesis by auto
    qed
  qed
qed

lemma abort_run_append:
  "abort_run h (xs @ ys) = abort_run (abort_run h xs) ys"
  by (induction h xs rule: abort_run.induct) simp_all

lemma abort_run_noop:
  "\<forall>c \<in> set cs. c < length h \<longrightarrow> aborted (h ! c) \<Longrightarrow> abort_run h cs = h"
  by (induction cs) auto

lemma abort_run_single:
  "abort_run h [c] =
     (if c < length h \<and> \<not> aborted (h ! c)
      then abort_run (h[c := (h ! c)\<lparr>aborted := True\<rparr>]) (listener_targets (listeners (h ! c)))
      else h)"
  by simp


lemma mem_listener_targets [simp]:
  "c \<in> set (listener_targets ls) \<longleftrightarrow> AbortListener c \<in> set ls"
  by (induction ls rule: listener_targets.induct) auto

lemma abort_run_cascade:
  "inner < length h \<Longrightarrow> outer < length h \<Longrightarrow>
   AbortListener inner \<in> set (listeners (h ! outer)) \<Longrightarrow>
   (aborted (h ! outer) \<and> \<not> aborted (h ! inner) \<longrightarrow> inner \<in> set cs) \<Longrightarrow>
   aborted (abort_run h cs ! outer) \<longrightarrow> aborted (abort_run h cs ! inner)"
proof (induction h cs rule: abort_run.induct)
  case (1 h)
  then show ?case by simp
next
  case (2 h c cs)
  show ?case
  proof (cases "c < length h \<and> \<not> aborted (h ! c)")
    case True
    let ?h = "h[c := (h ! c)\<lparr>aborted := True\<rparr>]"
    let ?cs = "listener_targets (listeners (h ! c)) @ cs"
    have a: "inner < length ?h" "outer < length ?h" using 2 by simp_all
    have b: "AbortListener inner \<in> set (listeners (?h ! outer))"
      using 2 True by (simp add: nth_list_update)
    have c: "aborted (?h ! outer) \<and> \<not> aborted (?h ! inner) \<longrightarrow> inner \<in> set ?cs"
      using "2.prems" True by (auto simp: nth_list_update split: if_splits)
    have "abort_run h (c # cs) = abort_run ?h ?cs" using True by simp
    with "2.IH"(1) [OF True a b c] show ?thesis by simp
  next
    case False
    have c: "aborted (h ! outer) \<and> \<not> aborted (h ! inner) \<longrightarrow> inner \<in> set cs"
      using "2.prems" False by auto
    have "abort_run h (c # cs) = abort_run h cs" using False by auto
    with "2.IH"(2) [OF False "2.prems"(1,2,3) c] show ?thesis by simp
  qed
qed

lemma abort_run_only:
  "c < length h \<Longrightarrow> aborted (abort_run h cs ! c) \<Longrightarrow>
   aborted (h ! c) \<or> c \<in> set cs \<or> (\<exists>d < length h. AbortListener c \<in> set (listeners (h ! d)))"
proof (induction h cs rule: abort_run.induct)
  case (1 h)
  then show ?case by simp
next
  case (2 h d cs)
  show ?case
  proof (cases "d < length h \<and> \<not> aborted (h ! d)")
    case True
    let ?h = "h[d := (h ! d)\<lparr>aborted := True\<rparr>]"
    have "aborted (abort_run ?h (listener_targets (listeners (h ! d)) @ cs) ! c)"
      using "2.prems" True by simp
    with "2.IH"(1) [OF True] "2.prems"(1)
    have "aborted (?h ! c) \<or> c \<in> set (listener_targets (listeners (h ! d)) @ cs)
          \<or> (\<exists>e < length ?h. AbortListener c \<in> set (listeners (?h ! e)))"
      by simp
    then show ?thesis
      using True "2.prems"(1)
      by (auto simp: nth_list_update split: if_splits)
  next
    case False
    with 2 show ?thesis by auto
  qed
qed

declare abort_run.simps(2) [simp del]

section \<open>Properties of the shared state\<close>

lemma abort_fields [simp]:
  "signals (abort c w) = abort_run (signals w) [c]"
  "contexts (abort c w) = contexts w"
  "terminated (abort c w) = terminated w"
  "abortControllers (abort c w) = abortControllers w"
  by (simp_all add: abort_def)

lemma abort_overwrite: "(abort c w)\<lparr>signals := h\<rparr> = w\<lparr>signals := h\<rparr>"
  by (simp add: abort_def)

lemma fold_abort:
  "fold abort cs w = w\<lparr>signals := abort_run (signals w) cs\<rparr>"
proof (induction cs arbitrary: w)
  case Nil
  show ?case by simp
next
  case (Cons c cs)
  have "abort_run (signals w) (c # cs) = abort_run (abort_run (signals w) [c]) cs"
    using abort_run_append [of "signals w" "[c]" cs] by simp
  moreover have "fold abort (c # cs) w =
      (abort c w)\<lparr>signals := abort_run (signals (abort c w)) cs\<rparr>"
    by (simp add: Cons)
  ultimately show ?case by (simp add: abort_overwrite)
qed

lemma terminate_fresh:
  "\<not> terminated w \<Longrightarrow>
   terminate w = w\<lparr>signals := abort_run (signals w) (abortControllers w),
                  terminated := True, abortControllers := []\<rparr>"
  by (simp add: terminate_def fold_abort)

lemma terminate_again: "terminated w \<Longrightarrow> terminate w = w"
  by (simp add: terminate_def)

lemma terminated_terminate [simp]: "terminated (terminate w)"
  by (simp add: terminate_def fold_abort)

lemma terminated_step: "terminated w \<Longrightarrow> terminated (step e w)"
  by (cases e)
     (simp_all add: abortOnTerminate_def abort_def assign_prop_def middleware_begin_def
        middleware_finally_def new_AbortController_def addEventListener_def new_object_def
        removeEventListener_def Let_def split_def)

lemma terminated_run: "terminated w \<Longrightarrow> terminated (run evs w)"
  unfolding run_def by (induction evs arbitrary: w) (simp_all add: terminated_step)

lemma drained_step: "drained w \<Longrightarrow> drained (step e w)"
  by (cases e)
     (auto simp: drained_def abortOnTerminate_def abort_def assign_prop_def middleware_begin_def
        middleware_finally_def new_AbortController_def addEventListener_def new_object_def
        removeEventListener_def Let_def split_def terminate_def fold_abort Set_delete_def)

lemma drained_run: "drained w \<Longrightarrow> drained (run evs w)"
  unfolding run_def by (induction evs arbitrary: w) (simp_all add: drained_step)

lemma drained_terminate: "drained w \<Longrightarrow> drained (terminate w)"
  using drained_step [of w InvokeTerminate] by simp

lemma drained_init: "drained (TerminatorMiddleware h cs)"
  by (simp add: drained_def TerminatorMiddleware_def)

lemma distinct_step: "distinct (abortControllers w) \<Longrightarrow> distinct (abortControllers (step e w))"
  by (cases e)
     (auto simp: abortOnTerminate_def abort_def assign_prop_def middleware_begin_def
        middleware_finally_def new_AbortController_def addEventListener_def new_object_def
        removeEventListener_def Let_def split_def terminate_def fold_abort Set_delete_def
        Set_add_def distinct_removeAll)

lemma distinct_run: "distinct (abortControllers w) \<Longrightarrow> distinct (abortControllers (run evs w))"
  unfolding run_def by (induction evs arbitrary: w) (simp_all add: distinct_step)

section \<open>Termination of the server\<close>

lemma is_aborted_terminate_registered:
  assumes "\<not> terminated w" "c \<in> set (abortControllers w)" "c < length (signals w)"
  shows "is_aborted (terminate w) c"
  using assms by (simp add: terminate_fresh is_aborted_def aborted_abort_run_mem)

lemma is_aborted_terminate_only:
  assumes "\<not> terminated w" "c < length (signals w)" "is_aborted (terminate w) c"
  shows "is_aborted w c \<or> c \<in> set (abortControllers w)
         \<or> (\<exists>d < length (signals w). AbortListener c \<in> set (listeners (signals w ! d)))"
  using assms abort_run_only [of c "signals w" "abortControllers w"]
  by (simp add: terminate_fresh is_aborted_def)

text \<open>
  Claim C2. \<^verbatim>\<open>terminate()\<close> is idempotent. The first invocation calls \<^verbatim>\<open>abort()\<close> on
  the controllers registered at that moment, in insertion order, and empties the set:
  every registered controller is aborted afterwards, and a controller that becomes
  aborted was registered or is the target of an abort listener (the dispatch of an
  aborted signal reaches it). A later invocation, directly or after anything else has
  happened, returns the state as it finds it, so two invocations abort what the first
  one aborts.
\<close>

theorem terminate_idempotent:
  "terminate (terminate w) = terminate w
   \<and> terminate (run evs (terminate w)) = run evs (terminate w)
   \<and> (\<not> terminated w \<longrightarrow>
        signals (terminate w) = signals (fold abort (abortControllers w) w)
        \<and> abortControllers (terminate w) = []
        \<and> (\<forall>c \<in> set (abortControllers w). c < length (signals w) \<longrightarrow> is_aborted (terminate w) c)
        \<and> (\<forall>c < length (signals w). is_aborted (terminate w) c \<longrightarrow>
              is_aborted w c \<or> c \<in> set (abortControllers w)
              \<or> (\<exists>d < length (signals w). AbortListener c \<in> set (listeners (signals w ! d)))))"
proof (intro conjI impI ballI allI)
  show "terminate (terminate w) = terminate w"
    by (rule terminate_again) simp
  show "terminate (run evs (terminate w)) = run evs (terminate w)"
    by (rule terminate_again) (simp add: terminated_run)
next
  assume "\<not> terminated w"
  then show "signals (terminate w) = signals (fold abort (abortControllers w) w)"
    by (simp add: terminate_fresh fold_abort)
  from \<open>\<not> terminated w\<close> show "abortControllers (terminate w) = []"
    by (simp add: terminate_fresh)
next
  fix c assume "\<not> terminated w" "c \<in> set (abortControllers w)" "c < length (signals w)"
  then show "is_aborted (terminate w) c" by (rule is_aborted_terminate_registered)
next
  fix c assume "\<not> terminated w" "c < length (signals w)" "is_aborted (terminate w) c"
  then show "is_aborted w c \<or> c \<in> set (abortControllers w)
         \<or> (\<exists>d < length (signals w). AbortListener c \<in> set (listeners (signals w ! d)))"
    by (rule is_aborted_terminate_only)
qed

theorem terminate_idempotent_witness:
  "\<not> terminated two_calls \<and> 1 \<in> set (abortControllers two_calls)
   \<and> is_aborted (terminate two_calls) 1 \<and> \<not> is_aborted (terminate two_calls) 3
   \<and> terminate (terminate two_calls) = terminate two_calls"
  using terminate_idempotent [of two_calls "[]"]
  by (simp add: two_calls_def terminate_def fold_abort abort_run.simps(2) is_aborted_def)

section \<open>Registration\<close>

lemma abortOnTerminate_fields [simp]:
  "contexts (abortOnTerminate c w) = contexts w"
  "terminated (abortOnTerminate c w) = terminated w"
  "length (signals (abortOnTerminate c w)) = length (signals w)"
  by (simp_all add: abortOnTerminate_def)

lemma abortOnTerminate_open:
  "\<not> terminated w \<Longrightarrow>
   abortOnTerminate c w = w\<lparr>abortControllers := Set_add c (abortControllers w)\<rparr>"
  by (simp add: abortOnTerminate_def)

lemma abortOnTerminate_closed: "terminated w \<Longrightarrow> abortOnTerminate c w = abort c w"
  by (simp add: abortOnTerminate_def)

lemma Set_add_idem [simp]: "Set_add x (Set_add x xs) = Set_add x xs"
  by (simp add: Set_add_def)

lemma set_Set_add [simp]: "set (Set_add x xs) = insert x (set xs)"
  by (auto simp: Set_add_def)

lemma distinct_Set_add [simp]: "distinct (Set_add x xs) = distinct xs"
  by (simp add: Set_add_def)

lemma set_Set_delete [simp]: "set (Set_delete x xs) = set xs - {x}"
  by (auto simp: Set_delete_def)

lemma distinct_Set_delete [simp]: "distinct xs \<Longrightarrow> distinct (Set_delete x xs)"
  by (simp add: Set_delete_def distinct_removeAll)

lemma count_list_distinct:
  "distinct xs \<Longrightarrow> count_list xs x = (if x \<in> set xs then 1 else 0)"
  by (induction xs) auto

lemma abort_run_twice: "abort_run (abort_run h [c]) [c] = abort_run h [c]"
proof (cases "c < length h")
  case True
  then have "aborted (abort_run h [c] ! c)" by (simp add: aborted_abort_run_mem)
  then show ?thesis by (simp add: abort_run_noop)
next
  case False
  then show ?thesis by (simp add: abort_run.simps(2))
qed

lemma abortOnTerminate_twice:
  "abortOnTerminate c (abortOnTerminate c w) = abortOnTerminate c w"
  by (cases "terminated w")
     (simp_all add: abortOnTerminate_closed abortOnTerminate_open abort_def abort_run_twice)

lemma abortOnTerminate_funpow:
  "0 < n \<Longrightarrow> (abortOnTerminate c ^^ n) w = abortOnTerminate c w"
proof (induction n)
  case 0
  then show ?case by simp
next
  case (Suc n)
  show ?case
  proof (cases n)
    case 0
    then show ?thesis by simp
  next
    case (Suc m)
    with Suc.IH have "(abortOnTerminate c ^^ n) w = abortOnTerminate c w" by simp
    then show ?thesis by (simp add: abortOnTerminate_twice)
  qed
qed

lemma middleware_begin_fields [simp]:
  "fst (middleware_begin context w) = (length (signals w), length (contexts w))"
  "contexts (snd (middleware_begin context w)) =
     contexts w @ [next_context (contexts w ! context) (length (signals w))]"
  "terminated (snd (middleware_begin context w)) = terminated w"
  "abortControllers (snd (middleware_begin context w)) = abortControllers w"
  "length (signals (snd (middleware_begin context w))) = Suc (length (signals w))"
  by (simp_all add: middleware_begin_def new_AbortController_def addEventListener_def
        new_object_def Let_def)

lemma middleware_finally_fields [simp]:
  "contexts (middleware_finally context c w) = contexts w"
  "terminated (middleware_finally context c w) = terminated w"
  "abortControllers (middleware_finally context c w) = Set_delete c (abortControllers w)"
  "length (signals (middleware_finally context c w)) = length (signals w)"
  by (simp_all add: middleware_finally_def removeEventListener_def Let_def)

lemma assign_prop_fields [simp]:
  "signals (assign_prop a k v w) = signals w"
  "terminated (assign_prop a k v w) = terminated w"
  "abortControllers (assign_prop a k v w) = abortControllers w"
  "length (contexts (assign_prop a k v w)) = length (contexts w)"
  by (simp_all add: assign_prop_def)

lemma registered_step:
  assumes "registered c w" "e \<noteq> InvokeTerminate" "\<forall>context. e \<noteq> CallFinally context c"
  shows "registered c (step e w)"
  using assms
  by (cases e) (auto simp: registered_def abortOnTerminate_open)

lemma registered_run:
  assumes "registered c w" "InvokeTerminate \<notin> set evs"
    "\<forall>context. CallFinally context c \<notin> set evs"
  shows "registered c (run evs w)"
  using assms unfolding run_def
proof (induction evs arbitrary: w)
  case Nil
  then show ?case by simp
next
  case (Cons e evs)
  from Cons.prems have "registered c (step e w)"
    by (intro registered_step) auto
  with Cons show ?case by simp
qed

lemma distinct_reachable: "distinct (abortControllers (run evs (TerminatorMiddleware h cs)))"
  by (rule distinct_run) (simp add: TerminatorMiddleware_def)

text \<open>
  Claim C8. Within one call \<^verbatim>\<open>abortOnTerminate()\<close> is idempotent. In a state an
  instance can reach and in which \<^verbatim>\<open>terminate()\<close> has not been invoked, \<open>n\<close> invocations
  in a row leave the state that one invocation leaves, and the set then holds the call's
  inner controller exactly once. It still holds it exactly once after anything else that
  can happen while the call is in flight and the server is not terminated, further
  invocations of \<^verbatim>\<open>abortOnTerminate()\<close> by this and other calls included.
\<close>

theorem abortOnTerminate_idempotent:
  assumes "w = run evs0 (TerminatorMiddleware h cs)" and "\<not> terminated w" and "0 < n"
    and "InvokeTerminate \<notin> set evs" and "\<forall>context. CallFinally context c \<notin> set evs"
  shows "(abortOnTerminate c ^^ n) w = abortOnTerminate c w
       \<and> count_list (abortControllers ((abortOnTerminate c ^^ n) w)) c = 1
       \<and> count_list (abortControllers (run evs ((abortOnTerminate c ^^ n) w))) c = 1"
proof -
  have eq: "(abortOnTerminate c ^^ n) w = abortOnTerminate c w"
    using assms(3) by (rule abortOnTerminate_funpow)
  have "distinct (abortControllers w)"
    unfolding assms(1) by (rule distinct_reachable)
  with assms(2) have r: "registered c (abortOnTerminate c w)"
    by (simp add: registered_def abortOnTerminate_open)
  from registered_run [OF r assms(4,5)] have "registered c (run evs (abortOnTerminate c w))" .
  with r eq show ?thesis
    by (simp add: registered_def count_list_distinct)
qed

text \<open>
  Claim C3. After \<^verbatim>\<open>terminate()\<close> has returned no call is added to the set of
  controllers. Take an instance in any state it can reach, invoke \<^verbatim>\<open>terminate()\<close>, and
  let anything happen afterwards: the set is empty, and a call that now invokes
  \<^verbatim>\<open>abortOnTerminate()\<close> leaves it empty and finds its inner signal aborted at once.
\<close>

theorem no_registration_after_terminate:
  assumes "w = run evs (terminate (run evs0 (TerminatorMiddleware h cs)))"
  shows "abortControllers w = []
       \<and> abortControllers (abortOnTerminate c w) = []
       \<and> (c < length (signals w) \<longrightarrow> is_aborted (abortOnTerminate c w) c)"
proof -
  have t: "terminated w"
    unfolding assms by (rule terminated_run) simp
  have "drained w"
    unfolding assms by (intro drained_run drained_terminate drained_init)
  with t have e: "abortControllers w = []" by (simp add: drained_def)
  from t have a: "abortOnTerminate c w = abort c w" by (rule abortOnTerminate_closed)
  show ?thesis
    by (simp add: e a is_aborted_def aborted_abort_run_mem)
qed

section \<open>Runs\<close>

lemma run_Nil [simp]: "run [] w = w"
  by (simp add: run_def)

lemma run_Cons [simp]: "run (e # evs) w = run evs (step e w)"
  by (simp add: run_def)

lemma run_append: "run (xs @ ys) w = run ys (run xs w)"
  by (simp add: run_def)

subsection \<open>Event listeners\<close>

lemma addEventListener_fields [simp]:
  "contexts (addEventListener sg l w) = contexts w"
  "terminated (addEventListener sg l w) = terminated w"
  "abortControllers (addEventListener sg l w) = abortControllers w"
  "length (signals (addEventListener sg l w)) = length (signals w)"
  by (simp_all add: addEventListener_def)

lemma addEventListener_aborted [simp]:
  "i < length (signals w) \<Longrightarrow>
   aborted (signals (addEventListener sg l w) ! i) = aborted (signals w ! i)"
  by (simp add: addEventListener_def nth_list_update)

lemma addEventListener_keeps:
  "i < length (signals w) \<Longrightarrow> l' \<in> set (listeners (signals w ! i)) \<Longrightarrow>
   l' \<in> set (listeners (signals (addEventListener sg l w) ! i))"
  by (simp add: addEventListener_def nth_list_update)

lemma addEventListener_adds:
  "sg < length (signals w) \<Longrightarrow> l \<in> set (listeners (signals (addEventListener sg l w) ! sg))"
  by (simp add: addEventListener_def)

lemma removeEventListener_fields [simp]:
  "contexts (removeEventListener sg l w) = contexts w"
  "terminated (removeEventListener sg l w) = terminated w"
  "abortControllers (removeEventListener sg l w) = abortControllers w"
  "length (signals (removeEventListener sg l w)) = length (signals w)"
  by (simp_all add: removeEventListener_def)

lemma removeEventListener_aborted [simp]:
  "i < length (signals w) \<Longrightarrow>
   aborted (signals (removeEventListener sg l w) ! i) = aborted (signals w ! i)"
  by (simp add: removeEventListener_def nth_list_update)

lemma removeEventListener_keeps:
  "i < length (signals w) \<Longrightarrow> l' \<in> set (listeners (signals w ! i)) \<Longrightarrow> l' \<noteq> l \<Longrightarrow>
   l' \<in> set (listeners (signals (removeEventListener sg l w) ! i))"
  by (simp add: removeEventListener_def nth_list_update)

lemma removeEventListener_removes:
  "sg < length (signals w) \<Longrightarrow>
   l \<notin> set (listeners (signals (removeEventListener sg l w) ! sg))"
  by (simp add: removeEventListener_def)

subsection \<open>Entry and exit of the middleware on the signal heap\<close>

lemma middleware_begin_signals:
  "signals (snd (middleware_begin context w)) =
     signals (addEventListener (signal (contexts w ! context)) (AbortListener (length (signals w)))
                (snd (new_AbortController w)))"
  by (simp add: middleware_begin_def new_AbortController_def new_object_def Let_def split_def)

lemma new_AbortController_fields [simp]:
  "fst (new_AbortController w) = length (signals w)"
  "signals (snd (new_AbortController w)) = signals w @ [\<lparr>aborted = False, listeners = []\<rparr>]"
  "contexts (snd (new_AbortController w)) = contexts w"
  "terminated (snd (new_AbortController w)) = terminated w"
  "abortControllers (snd (new_AbortController w)) = abortControllers w"
  by (simp_all add: new_AbortController_def)

lemma middleware_begin_aborted:
  "i < length (signals w) \<Longrightarrow>
   aborted (signals (snd (middleware_begin context w)) ! i) = aborted (signals w ! i)"
  by (simp add: middleware_begin_signals nth_append)

lemma middleware_begin_inner_fresh:
  "\<not> aborted (signals (snd (middleware_begin context w)) ! length (signals w))"
  by (simp add: middleware_begin_signals)

lemma middleware_begin_keeps:
  "i < length (signals w) \<Longrightarrow> l \<in> set (listeners (signals w ! i)) \<Longrightarrow>
   l \<in> set (listeners (signals (snd (middleware_begin context w)) ! i))"
  by (simp add: middleware_begin_signals addEventListener_keeps nth_append)

lemma middleware_begin_listens:
  "signal (contexts w ! context) < length (signals w) \<Longrightarrow>
   AbortListener (length (signals w))
     \<in> set (listeners (signals (snd (middleware_begin context w)) ! signal (contexts w ! context)))"
  by (simp add: middleware_begin_signals addEventListener_adds)

lemma middleware_finally_signals:
  "signals (middleware_finally context c w) =
     signals (removeEventListener (signal (contexts w ! context)) (AbortListener c) w)"
  by (simp add: middleware_finally_def Let_def)

lemma middleware_finally_aborted:
  "i < length (signals w) \<Longrightarrow>
   aborted (signals (middleware_finally context c w) ! i) = aborted (signals w ! i)"
  by (simp add: middleware_finally_signals)

lemma middleware_finally_keeps:
  "i < length (signals w) \<Longrightarrow> l \<in> set (listeners (signals w ! i)) \<Longrightarrow> l \<noteq> AbortListener c \<Longrightarrow>
   l \<in> set (listeners (signals (middleware_finally context c w) ! i))"
  by (simp add: middleware_finally_signals removeEventListener_keeps)

lemma middleware_finally_detached:
  "signal (contexts w ! context) < length (signals w) \<Longrightarrow>
   AbortListener c
     \<notin> set (listeners (signals (middleware_finally context c w) ! signal (contexts w ! context)))"
  by (simp add: middleware_finally_signals removeEventListener_removes)

subsection \<open>What every step keeps\<close>

lemma terminate_fields [simp]:
  "contexts (terminate w) = contexts w"
  "length (signals (terminate w)) = length (signals w)"
  by (simp_all add: terminate_def fold_abort)

lemma length_signals_step: "length (signals w) \<le> length (signals (step e w))"
  by (cases e) simp_all

lemma length_signals_run: "length (signals w) \<le> length (signals (run evs w))"
proof (induction evs arbitrary: w)
  case Nil
  show ?case by simp
next
  case (Cons e evs)
  from length_signals_step [of w e] Cons [of "step e w"] show ?case by simp
qed

lemma context_step:
  "a < length (contexts w) \<Longrightarrow>
   a < length (contexts (step e w)) \<and> signal (contexts (step e w) ! a) = signal (contexts w ! a)"
  by (cases e) (simp_all add: nth_append assign_prop_def nth_list_update)

lemma context_run:
  "a < length (contexts w) \<Longrightarrow>
   a < length (contexts (run evs w)) \<and> signal (contexts (run evs w) ! a) = signal (contexts w ! a)"
proof (induction evs arbitrary: w)
  case Nil
  then show ?case by simp
next
  case (Cons e evs)
  from context_step [OF Cons.prems, of e] Cons.IH [of "step e w"] show ?case by simp
qed

lemma context_frame_step:
  "a < length (contexts w) \<Longrightarrow> \<forall>k v. e \<noteq> AssignProp a k v \<Longrightarrow>
   contexts (step e w) ! a = contexts w ! a"
  by (cases e) (auto simp: nth_append assign_prop_def nth_list_update)

lemma context_frame_run:
  "a < length (contexts w) \<Longrightarrow> \<forall>k v. AssignProp a k v \<notin> set evs \<Longrightarrow>
   contexts (run evs w) ! a = contexts w ! a"
proof (induction evs arbitrary: w)
  case Nil
  then show ?case by simp
next
  case (Cons e evs)
  have "contexts (step e w) ! a = contexts w ! a"
    using Cons.prems by (intro context_frame_step) auto
  moreover have "contexts (run evs (step e w)) ! a = contexts (step e w) ! a"
    using Cons.prems context_step [of a w e] by (intro Cons.IH) auto
  ultimately show ?case by simp
qed

section \<open>One call through the middleware\<close>

lemma terminatorMiddleware_unfold:
  "terminatorMiddleware context evs d w =
     middleware_end context (length (signals w)) d (run evs (snd (middleware_begin context w)))"
  using middleware_begin_fields(1) [of "context" w]
  by (simp add: terminatorMiddleware_def split_def Let_def)

lemma middleware_end_world [simp]:
  "snd (middleware_end context c d w) = middleware_finally context c w"
  by (simp add: middleware_end_def Let_def)

lemma in_flight_context:
  assumes "context < length (contexts w)"
  shows "context < length (contexts (run evs (snd (middleware_begin context w))))"
    and "signal (contexts (run evs (snd (middleware_begin context w))) ! context)
         = signal (contexts w ! context)"
proof -
  let ?w1 = "snd (middleware_begin context w)"
  have a: "context < length (contexts ?w1)" using assms by simp
  have b: "signal (contexts ?w1 ! context) = signal (contexts w ! context)"
    using assms by (simp add: nth_append)
  from context_run [OF a, of evs] b
  show "context < length (contexts (run evs ?w1))"
    and "signal (contexts (run evs ?w1) ! context) = signal (contexts w ! context)"
    by simp_all
qed

text \<open>
  Claim C4. On every exit path of the middleware the call's inner controller is removed
  from the set and the listener that forwards the abort of the outer signal is detached
  from that signal. For a call entered with a context that refers to a signal of the
  heap, whatever happens while the delegation runs and however it ends (it returns, it
  throws, or the consumer stops early), the state after the \<^verbatim>\<open>finally\<close> block has the
  inner controller outside the set and the call's listener outside the listeners of the
  signal the call received.
\<close>

theorem cleanup_on_every_exit:
  assumes "context < length (contexts w)"
    and "signal (contexts w ! context) < length (signals w)"
  shows "length (signals w) \<notin> set (abortControllers (snd (terminatorMiddleware context evs d w)))
       \<and> AbortListener (length (signals w))
           \<notin> set (listeners (signals (snd (terminatorMiddleware context evs d w))
                     ! signal (contexts w ! context)))"
proof -
  let ?w1 = "snd (middleware_begin context w)"
  let ?w2 = "run evs ?w1"
  have s: "signal (contexts ?w2 ! context) = signal (contexts w ! context)"
    using assms(1) by (rule in_flight_context)
  have "length (signals w) \<le> length (signals ?w2)"
    using length_signals_run [of ?w1 evs] by simp
  with assms(2) have "signal (contexts ?w2 ! context) < length (signals ?w2)"
    using s by simp
  from middleware_finally_detached [OF this, of "length (signals w)"] s
  show ?thesis by (simp add: terminatorMiddleware_unfold)
qed

text \<open>
  Claim C1. When the delegation throws, the middleware throws
  \<^verbatim>\<open>ServerError(UNAVAILABLE, "Server shutting down")\<close> in place of the error if, at that
  moment, the inner signal is aborted and the signal the call received is not; in every
  other case it rethrows the error it caught. A delegation that returns or is stopped
  early ends the same way for the consumer, and the yielded responses pass through.
\<close>

theorem catch_replaces_error:
  assumes "context < length (contexts w)"
  shows "yielded (fst (terminatorMiddleware context evs d w)) = yielded d
       \<and> ending (fst (terminatorMiddleware context evs d w)) =
          (case ending d of
             Throw err \<Rightarrow>
               Throw (if is_aborted (run evs (snd (middleware_begin context w))) (length (signals w))
                         \<and> \<not> is_aborted (run evs (snd (middleware_begin context w)))
                               (signal (contexts w ! context))
                      then ServerError UNAVAILABLE ''Server shutting down''
                      else err)
           | Return r \<Rightarrow> Return r
           | EarlyStop \<Rightarrow> EarlyStop)"
  using in_flight_context(2) [OF assms, of evs]
  by (simp add: terminatorMiddleware_unfold middleware_end_def middleware_catch_def Let_def
        split: ending.splits)

text \<open>
  Claim C10. The middleware does not mutate the context object it receives. The object
  handed to \<^verbatim>\<open>call.next\<close> is another object: its \<^verbatim>\<open>signal\<close> is the inner signal, its
  \<^verbatim>\<open>abortOnTerminate\<close> is the call's closure, and every other property is the one of
  the received context. After the call the received object is what it was, provided the
  code running meanwhile did not assign to it; so \<^verbatim>\<open>abortOnTerminate\<close> is seen downstream
  only.
\<close>

theorem outer_context_untouched:
  assumes "context < length (contexts w)"
    and "\<forall>k v. AssignProp context k v \<notin> set evs"
  shows "contexts (snd (terminatorMiddleware context evs d w)) ! context = contexts w ! context
       \<and> snd (fst (middleware_begin context w)) \<noteq> context
       \<and> signal (contexts (snd (middleware_begin context w)) ! snd (fst (middleware_begin context w)))
           = length (signals w)
       \<and> props (contexts (snd (middleware_begin context w)) ! snd (fst (middleware_begin context w)))
           ''abortOnTerminate'' = Some (VAbortOnTerminate (length (signals w)))
       \<and> (\<forall>k. k \<noteq> ''abortOnTerminate'' \<longrightarrow>
            props (contexts (snd (middleware_begin context w)) ! snd (fst (middleware_begin context w))) k
            = props (contexts w ! context) k)"
proof -
  let ?w1 = "snd (middleware_begin context w)"
  have a: "context < length (contexts ?w1)" using assms(1) by simp
  have "contexts (run evs ?w1) ! context = contexts ?w1 ! context"
    using a assms(2) by (rule context_frame_run)
  also have "\<dots> = contexts w ! context" using assms(1) by (simp add: nth_append)
  finally have "contexts (snd (terminatorMiddleware context evs d w)) ! context = contexts w ! context"
    by (simp add: terminatorMiddleware_unfold)
  then show ?thesis using assms(1) by (simp add: next_context_def)
qed

subsection \<open>Shutdown of a registered call\<close>

lemma aborted_step_mono:
  assumes "i < length (signals w)" "aborted (signals w ! i)"
  shows "aborted (signals (step e w) ! i)"
proof (cases e)
  case (InvokeAbortOnTerminate c)
  with assms show ?thesis
    by (cases "terminated w")
       (simp_all add: abortOnTerminate_open abortOnTerminate_closed aborted_abort_run_mono)
next
  case InvokeTerminate
  with assms show ?thesis
    by (cases "terminated w") (simp_all add: terminate_again terminate_fresh aborted_abort_run_mono)
next
  case (InvokeAbort c)
  with assms show ?thesis by (simp add: aborted_abort_run_mono)
next
  case (AssignProp a k v)
  with assms show ?thesis by simp
next
  case (CallBegin c)
  with assms show ?thesis by (simp add: middleware_begin_aborted)
next
  case (CallFinally c d)
  with assms show ?thesis by (simp add: middleware_finally_aborted)
qed

lemma aborted_run_mono:
  "i < length (signals w) \<Longrightarrow> aborted (signals w ! i) \<Longrightarrow> aborted (signals (run evs w) ! i)"
proof (induction evs arbitrary: w)
  case Nil
  then show ?case by simp
next
  case (Cons e evs)
  have "i < length (signals (step e w))"
    using Cons.prems(1) length_signals_step [of w e] by simp
  moreover have "aborted (signals (step e w) ! i)"
    using Cons.prems by (rule aborted_step_mono)
  ultimately show ?case using Cons.IH by simp
qed

lemma is_aborted_run_mono: "is_aborted w i \<Longrightarrow> is_aborted (run evs w) i"
  using aborted_run_mono [of i w evs] length_signals_run [of w evs]
  by (simp add: is_aborted_def)

lemma open_step:
  "\<not> terminated w \<Longrightarrow> e \<noteq> InvokeTerminate \<Longrightarrow> \<not> terminated (step e w)"
  by (cases e) simp_all

lemma open_run:
  "\<not> terminated w \<Longrightarrow> InvokeTerminate \<notin> set evs \<Longrightarrow> \<not> terminated (run evs w)"
proof (induction evs arbitrary: w)
  case Nil
  then show ?case by simp
next
  case (Cons e evs)
  from Cons.prems have "\<not> terminated (step e w)" by (intro open_step) auto
  with Cons show ?case by simp
qed

text \<open>
  The shutdown scenario in general: a call that invokes \<^verbatim>\<open>abortOnTerminate()\<close> while the
  server is not terminated, and that is still in flight when \<^verbatim>\<open>terminate()\<close> is invoked,
  answers any error thrown afterwards with
  \<^verbatim>\<open>ServerError(UNAVAILABLE, "Server shutting down")\<close>, unless the signal it received has
  been aborted too.
\<close>

lemma shutdown_aborts_registered_call:
  assumes ctx: "context < length (contexts w)"
    and fresh: "\<not> terminated w" "distinct (abortControllers w)"
    and evs: "evs = evs1 @ InvokeAbortOnTerminate (length (signals w)) # evs2 @ InvokeTerminate # evs3"
    and open1: "InvokeTerminate \<notin> set evs1"
    and open2: "InvokeTerminate \<notin> set evs2" "\<forall>c. CallFinally c (length (signals w)) \<notin> set evs2"
    and outer: "\<not> is_aborted (run evs (snd (middleware_begin context w))) (signal (contexts w ! context))"
    and thrown: "ending d = Throw err"
  shows "ending (fst (terminatorMiddleware context evs d w))
           = Throw (ServerError UNAVAILABLE ''Server shutting down'')"
proof -
  let ?inner = "length (signals w)"
  let ?w1 = "snd (middleware_begin context w)"
  let ?a = "run evs1 ?w1"
  let ?b = "abortOnTerminate ?inner ?a"
  let ?c = "run evs2 ?b"
  have "\<not> terminated ?a" using fresh(1) open1 by (intro open_run) simp_all
  moreover have "distinct (abortControllers ?a)" using fresh(2) by (intro distinct_run) simp
  ultimately have "registered ?inner ?b"
    by (simp add: registered_def abortOnTerminate_open)
  then have r: "registered ?inner ?c" using open2 by (rule registered_run)
  have "?inner < length (signals ?w1)" by simp
  also have "\<dots> \<le> length (signals ?a)" by (rule length_signals_run)
  also have "\<dots> = length (signals ?b)" by simp
  also have "\<dots> \<le> length (signals ?c)" by (rule length_signals_run)
  finally have "?inner < length (signals ?c)" .
  with r have "is_aborted (terminate ?c) ?inner"
    by (intro is_aborted_terminate_registered) (simp_all add: registered_def)
  then have "is_aborted (run evs3 (terminate ?c)) ?inner" by (rule is_aborted_run_mono)
  moreover have "run evs ?w1 = run evs3 (terminate ?c)"
    by (simp add: evs run_append)
  ultimately have i: "is_aborted (run evs ?w1) ?inner" by simp
  from i outer thrown in_flight_context(2) [OF ctx, of evs] show ?thesis
    by (simp add: terminatorMiddleware_unfold middleware_end_def middleware_catch_def Let_def)
qed

section \<open>Cascade of the outer abort\<close>

lemma wired_abort_run:
  assumes "wired outer inner w"
  shows "wired outer inner (w\<lparr>signals := abort_run (signals w) cs\<rparr>)"
proof -
  from assms have a: "inner < length (signals w)" "outer < length (signals w)"
    "AbortListener inner \<in> set (listeners (signals w ! outer))"
    "aborted (signals w ! outer) \<and> \<not> aborted (signals w ! inner) \<longrightarrow> inner \<in> set cs"
    by (auto simp: wired_def)
  from abort_run_cascade [OF a] a(1,2,3) show ?thesis
    by (simp add: wired_def)
qed

lemma wired_cong: "signals w' = signals w \<Longrightarrow> wired outer inner w' = wired outer inner w"
  by (simp add: wired_def)

lemma wired_abort: "wired outer inner w \<Longrightarrow> wired outer inner (abort c w)"
  using wired_abort_run [of outer inner w "[c]"] by (simp add: abort_def)

lemma wired_abortOnTerminate:
  assumes "wired outer inner w"
  shows "wired outer inner (abortOnTerminate c w)"
proof (cases "terminated w")
  case True
  then have "abortOnTerminate c w = abort c w" by (rule abortOnTerminate_closed)
  with wired_abort [OF assms] show ?thesis by simp
next
  case False
  then have "signals (abortOnTerminate c w) = signals w" by (simp add: abortOnTerminate_open)
  from wired_cong [OF this] assms show ?thesis by simp
qed

lemma wired_terminate:
  assumes "wired outer inner w"
  shows "wired outer inner (terminate w)"
proof (cases "terminated w")
  case True
  with assms show ?thesis by (simp add: terminate_again)
next
  case False
  then have "signals (terminate w) =
      signals (w\<lparr>signals := abort_run (signals w) (abortControllers w)\<rparr>)"
    by (simp add: terminate_fresh)
  from wired_cong [OF this] wired_abort_run [OF assms] show ?thesis by simp
qed

lemma wired_begin:
  "wired outer inner w \<Longrightarrow> wired outer inner (snd (middleware_begin context w))"
  by (simp add: wired_def middleware_begin_aborted middleware_begin_keeps)

lemma wired_finally:
  "wired outer inner w \<Longrightarrow> c \<noteq> inner \<Longrightarrow> wired outer inner (middleware_finally context c w)"
  by (simp add: wired_def middleware_finally_aborted middleware_finally_keeps)

lemma wired_step:
  assumes "wired outer inner w" "\<forall>context. e \<noteq> CallFinally context inner"
  shows "wired outer inner (step e w)"
proof (cases e)
  case (InvokeAbortOnTerminate c)
  with assms show ?thesis by (simp add: wired_abortOnTerminate)
next
  case InvokeTerminate
  with assms show ?thesis by (simp add: wired_terminate)
next
  case (InvokeAbort c)
  with assms show ?thesis by (simp add: wired_abort)
next
  case (AssignProp a k v)
  with assms show ?thesis by (simp add: wired_def)
next
  case (CallBegin c)
  with assms show ?thesis by (simp add: wired_begin)
next
  case (CallFinally c i)
  with assms have "i \<noteq> inner" by auto
  with assms CallFinally show ?thesis by (simp add: wired_finally)
qed

lemma wired_run:
  assumes "wired outer inner w" "\<forall>context. CallFinally context inner \<notin> set evs"
  shows "wired outer inner (run evs w)"
  using assms
proof (induction evs arbitrary: w)
  case Nil
  then show ?case by simp
next
  case (Cons e evs)
  have "wired outer inner (step e w)"
    using Cons.prems by (intro wired_step) auto
  with Cons show ?case by simp
qed

lemma wired_entry:
  assumes "signal (contexts w ! context) < length (signals w)"
    and "\<not> is_aborted w (signal (contexts w ! context))"
  shows "wired (signal (contexts w ! context)) (length (signals w))
           (snd (middleware_begin context w))"
  using assms
  by (simp add: wired_def middleware_begin_listens middleware_begin_aborted is_aborted_def)

text \<open>
  Claim C9, amended. For a call entered while the signal it received is not yet aborted:
  as long as the call's \<^verbatim>\<open>finally\<close> block has not run, the inner signal is aborted
  whenever the received signal is, and an abort of the received signal leaves the inner
  signal aborted.
\<close>

theorem outer_abort_cascades:
  assumes "signal (contexts w ! context) < length (signals w)"
    and "\<not> is_aborted w (signal (contexts w ! context))"
    and "\<forall>c. CallFinally c (length (signals w)) \<notin> set evs"
  shows "(is_aborted (run evs (snd (middleware_begin context w))) (signal (contexts w ! context))
          \<longrightarrow> is_aborted (run evs (snd (middleware_begin context w))) (length (signals w)))
       \<and> is_aborted (run (evs @ [InvokeAbort (signal (contexts w ! context))])
                        (snd (middleware_begin context w))) (length (signals w))"
proof -
  let ?outer = "signal (contexts w ! context)" and ?inner = "length (signals w)"
  let ?w1 = "snd (middleware_begin context w)"
  have "wired ?outer ?inner ?w1" using assms(1,2) by (rule wired_entry)
  then have a: "wired ?outer ?inner (run evs ?w1)" using assms(3) by (rule wired_run)
  then have b: "wired ?outer ?inner (abort ?outer (run evs ?w1))" by (rule wired_abort)
  have "aborted (signals (abort ?outer (run evs ?w1)) ! ?outer)"
    using a by (simp add: wired_def aborted_abort_run_mem)
  with a b show ?thesis
    by (simp add: wired_def is_aborted_def run_append)
qed

text \<open>
  Claim C9 as stated fails for a call entered after its context signal has been aborted:
  no event is dispatched to a listener attached afterwards, so downstream the received
  signal is aborted and the inner one is not, also after a further \<^verbatim>\<open>abort()\<close>.
\<close>

theorem outer_abort_cascades_counterexample:
  "is_aborted (run [InvokeAbort 0] (snd (middleware_begin 0 cancelled_before_entry))) 0
   \<and> \<not> is_aborted (run [InvokeAbort 0] (snd (middleware_begin 0 cancelled_before_entry))) 1"
  by (simp add: cancelled_before_entry_def TerminatorMiddleware_def middleware_begin_def
        new_AbortController_def addEventListener_def new_object_def is_aborted_def
        abort_def abort_run.simps(2))

section \<open>Concrete runs\<close>

lemma begin_one_context: "snd (middleware_begin 0 one_context) = begun"
  by (simp add: one_context_def TerminatorMiddleware_def begun_def middleware_begin_def
      new_AbortController_def addEventListener_def new_object_def next_context_def)

lemma begun_registers:
  "abortOnTerminate (Suc 0) begun = begun\<lparr>abortControllers := [Suc 0]\<rparr>"
  by (simp add: begun_def abortOnTerminate_def Set_add_def)

lemma begun_terminates:
  "signals (terminate (begun\<lparr>abortControllers := [Suc 0]\<rparr>)) =
     [\<lparr>aborted = False, listeners = [AbortListener 1]\<rparr>, \<lparr>aborted = True, listeners = []\<rparr>]"
  by (simp add: begun_def terminate_def fold_abort abort_run.simps(2))

theorem catch_replaces_error_witness:
  "0 < length (contexts one_context)
   \<and> ending (fst (terminatorMiddleware 0 [InvokeAbortOnTerminate 1, InvokeTerminate]
                \<lparr>yielded = [], ending = Throw AbortError\<rparr> one_context))
     = (Throw (ServerError UNAVAILABLE ''Server shutting down'') :: nat ending)"
  using catch_replaces_error [of 0 one_context "[InvokeAbortOnTerminate 1, InvokeTerminate]"
          "\<lparr>yielded = [], ending = Throw AbortError\<rparr> :: nat delegated"]
  by (simp add: begin_one_context begun_registers is_aborted_def begun_terminates)
     (simp add: one_context_def TerminatorMiddleware_def begun_def)

theorem cleanup_on_every_exit_witness:
  "0 < length (contexts one_context)
   \<and> signal (contexts one_context ! 0) < length (signals one_context)
   \<and> 1 \<notin> set (abortControllers (snd (terminatorMiddleware 0 [InvokeAbortOnTerminate 1]
                  \<lparr>yielded = [5::nat], ending = EarlyStop\<rparr> one_context)))
   \<and> AbortListener 1 \<notin> set (listeners (signals (snd (terminatorMiddleware 0 [InvokeAbortOnTerminate 1]
                  \<lparr>yielded = [5::nat], ending = EarlyStop\<rparr> one_context)) ! 0))"
  using cleanup_on_every_exit [of 0 one_context "[InvokeAbortOnTerminate 1]"
          "\<lparr>yielded = [5::nat], ending = EarlyStop\<rparr>"]
  by (simp add: one_context_def TerminatorMiddleware_def)

theorem outer_context_untouched_witness:
  "0 < length (contexts one_context)
   \<and> contexts (snd (terminatorMiddleware 0 [AssignProp 1 ''user'' (VStr ''u''), InvokeAbortOnTerminate 1]
                  \<lparr>yielded = [], ending = Return (Some (7::nat))\<rparr> one_context)) ! 0
       = \<lparr>signal = 0, props = Map.empty\<rparr>
   \<and> snd (fst (middleware_begin 0 one_context)) = 1
   \<and> props (contexts (snd (middleware_begin 0 one_context)) ! 1) ''abortOnTerminate''
       = Some (VAbortOnTerminate 1)"
  using outer_context_untouched [of 0 one_context
          "[AssignProp 1 ''user'' (VStr ''u''), InvokeAbortOnTerminate 1]"
          "\<lparr>yielded = [], ending = Return (Some (7::nat))\<rparr>"]
  by (simp add: one_context_def TerminatorMiddleware_def)

theorem outer_abort_cascades_witness:
  "signal (contexts one_context ! 0) < length (signals one_context)
   \<and> \<not> is_aborted one_context (signal (contexts one_context ! 0))
   \<and> is_aborted (run ([InvokeAbortOnTerminate 1] @ [InvokeAbort 0])
                   (snd (middleware_begin 0 one_context))) 1"
  using outer_abort_cascades [of one_context 0 "[InvokeAbortOnTerminate 1]"]
  by (simp add: one_context_def TerminatorMiddleware_def is_aborted_def)

theorem no_registration_after_terminate_witness:
  "0 < length (signals (run [] (terminate (run [] one_context))))
   \<and> is_aborted (abortOnTerminate 0 (run [] (terminate (run [] one_context)))) 0
   \<and> abortControllers (abortOnTerminate 0 (run [] (terminate (run [] one_context)))) = []"
  using no_registration_after_terminate
    [of _ "[]" "[]" "[\<lparr>aborted = False, listeners = []\<rparr>]" "[\<lparr>signal = 0, props = Map.empty\<rparr>]" 0,
     OF refl]
  by (simp add: one_context_def) (simp add: TerminatorMiddleware_def)

theorem abortOnTerminate_idempotent_witness:
  "\<not> terminated begun
   \<and> ((abortOnTerminate 1 ^^ 3) begun = abortOnTerminate 1 begun
     \<and> count_list (abortControllers ((abortOnTerminate 1 ^^ 3) begun)) 1 = 1
     \<and> count_list (abortControllers (run [InvokeAbortOnTerminate 1, InvokeAbort 0]
          ((abortOnTerminate 1 ^^ 3) begun))) 1 = 1)"
proof -
  have r: "begun = run [CallBegin 0] (TerminatorMiddleware [\<lparr>aborted = False, listeners = []\<rparr>]
                     [\<lparr>signal = 0, props = Map.empty\<rparr>])"
    using begin_one_context by (simp add: one_context_def TerminatorMiddleware_def)
  have t: "\<not> terminated begun" by (simp add: begun_def)
  have n: "0 < (3::nat)" by simp
  have e: "InvokeTerminate \<notin> set [InvokeAbortOnTerminate 1, InvokeAbort 0]" by simp
  have f: "\<forall>c. CallFinally c 1 \<notin> set [InvokeAbortOnTerminate 1, InvokeAbort 0]" by simp
  from t abortOnTerminate_idempotent [OF r t n e f] show ?thesis by (rule conjI)
qed

section \<open>The order of a middleware chain\<close>

lemma composition_law:
  "chain (use m2 (use m1 createServer)) meth h =
     (\<lambda>request context. m1 meth request (\<lambda>request context. m2 meth request h context) context)"
  by (simp add: use_def createServer_def)

text \<open>
  Claim C5. For the server of the test, with the chain \<^verbatim>\<open>use(m1).use(m2)\<close> around the unary
  handler, a call appends to the recorded actions, in this order: the start and the
  request seen by the first middleware, the start and the request seen by the second, the
  handler's entry with the context values \<^verbatim>\<open>test1\<close> and \<^verbatim>\<open>test2\<close> that the two middlewares
  injected, the response seen by the second middleware and the response seen by the first.
  This holds for every request, every incoming context and every earlier content of the
  log; the response carries the id of the request.
\<close>

theorem chain_order:
  "chain chain_server unary_method (unary testUnary) request context actions =
     (\<lparr>yielded = [], ending = Return (Some (TestResponse (request_id request)))\<rparr>,
      actions @
      [MiddlewareStart ''middleware1-start'' False False,
       MiddlewareRequest ''middleware1-request'' request,
       MiddlewareStart ''middleware2-start'' False False,
       MiddlewareRequest ''middleware2-request'' request,
       HandlerRequest ''request'' (Some ''test-value-1'') (Some ''test-value-2''),
       MiddlewareResponse ''middleware2-response'' (TestResponse (request_id request)),
       MiddlewareResponse ''middleware1-response'' (TestResponse (request_id request))])"
  by (simp add: chain_server_def use_def createServer_def createTestServerMiddleware_def
        unary_def testUnary_def unary_method_def map_add_def)

section \<open>A server error on its way to the client\<close>

lemma map_of_Metadata_set [simp]:
  "map_of (Metadata_set key vals m) k = (if k = key then Some vals else map_of m k)"
  by (induction m) auto

lemma map_of_delivered:
  "map_of (delivered m) key =
     map_option (\<lambda>vals. if binary_key key then vals else [join '', '' vals]) (map_of m key)"
  by (induction m) (auto simp: delivered_def)

lemma sendHeader_fields [simp]:
  "trailer (sendHeader c) = trailer c"
  "signal_aborted (sendHeader c) = signal_aborted c"
  "header_sent (sendHeader c)"
  by (simp_all add: sendHeader_def)

lemma sendHeader_no_trailer:
  "\<forall>f \<in> set (frames c). \<not> is_trailer f \<Longrightarrow> \<forall>f \<in> set (frames (sendHeader c)). \<not> is_trailer f"
  by (auto simp: sendHeader_def is_trailer_def)

lemma handler_step_keeps:
  "signal_aborted (handler_step s c) = signal_aborted c"
  by (cases s) (simp_all add: send_response_def Let_def)

lemma handler_step_no_trailer:
  "\<forall>f \<in> set (frames c). \<not> is_trailer f \<Longrightarrow>
   \<forall>f \<in> set (frames (handler_step s c)). \<not> is_trailer f"
  using sendHeader_no_trailer [of c]
  by (cases s) (auto simp: send_response_def Let_def is_trailer_def)

lemma handler_steps_keep:
  "signal_aborted (fold handler_step ss c) = signal_aborted c"
  by (induction ss arbitrary: c) (simp_all add: handler_step_keeps)

lemma handler_steps_no_trailer:
  "\<forall>f \<in> set (frames c). \<not> is_trailer f \<Longrightarrow>
   \<forall>f \<in> set (frames (fold handler_step ss c)). \<not> is_trailer f"
proof (induction ss arbitrary: c)
  case Nil
  then show ?case by simp
next
  case (Cons s ss)
  from Cons.IH [OF handler_step_no_trailer [OF Cons.prems]] show ?case by simp
qed

lemma trailer_handler_step:
  "\<forall>vs. s \<noteq> TrailerSet key vs \<Longrightarrow> map_of (trailer (handler_step s c)) key = map_of (trailer c) key"
  by (cases s) (auto simp: send_response_def Let_def)

lemma trailer_handler_steps:
  "\<forall>vs. TrailerSet key vs \<notin> set ss \<Longrightarrow>
   map_of (trailer (fold handler_step ss c)) key = map_of (trailer c) key"
proof (induction ss arbitrary: c)
  case Nil
  then show ?case by simp
next
  case (Cons s ss)
  have "map_of (trailer (handler_step s c)) key = map_of (trailer c) key"
    using Cons.prems by (intro trailer_handler_step) auto
  moreover have "map_of (trailer (fold handler_step ss (handler_step s c))) key
                 = map_of (trailer (handler_step s c)) key"
    using Cons.prems by (intro Cons.IH) auto
  ultimately show ?case by simp
qed

lemma trailer_preserved:
  assumes "ss = before @ TrailerSet key vals # after" "\<forall>vs. TrailerSet key vs \<notin> set after"
  shows "map_of (trailer (fold handler_step ss c)) key = Some vals"
  using trailer_handler_steps [OF assms(2)] by (simp add: assms(1))

lemma client_before_trailer:
  "\<forall>f \<in> set fs. \<not> is_trailer f \<Longrightarrow> result k = None \<Longrightarrow>
   result (fold (client_receive path) (map transport fs) k) = None
   \<and> onTrailer (fold (client_receive path) (map transport fs) k) = onTrailer k"
proof (induction fs arbitrary: k)
  case Nil
  then show ?case by simp
next
  case (Cons f fs)
  have "result (client_receive path (transport f) k) = None
        \<and> onTrailer (client_receive path (transport f) k) = onTrailer k"
    using Cons.prems by (cases f) (simp_all add: is_trailer_def)
  with Cons.IH [of "client_receive path (transport f) k"] Cons.prems show ?case by simp
qed

lemma client_trailer_last:
  assumes "\<forall>f \<in> set fs. \<not> is_trailer f" "status \<noteq> OK"
  shows "result (client_call path (fs @ [TrailerFrame m status details]))
           = Some (Inl (ClientError path status details (delivered m)))
       \<and> onTrailer (client_call path (fs @ [TrailerFrame m status details])) = [delivered m]"
  using client_before_trailer [OF assms(1), of new_client_call path] assms(2)
  by (simp add: client_call_def) (simp add: new_client_call_def)

lemma dispatch_ServerError:
  assumes "outcome h = Throw (ServerError status details)"
  shows "frames (dispatch h) =
           frames (sendHeader (fold handler_step (steps h) new_server_call))
           @ [TrailerFrame (trailer (fold handler_step (steps h) new_server_call)) status details]"
    and "signal_aborted (dispatch h) = False"
  using assms
  by (simp_all add: dispatch_def send_trailer_def Let_def handler_steps_keep new_server_call_def)

text \<open>
  Claim C6, amended. When a handler sets trailer metadata and then throws
  \<^verbatim>\<open>ServerError(status, details)\<close> with a status other than \<^verbatim>\<open>OK\<close>, the server sends a
  trailer with that status and those details that keeps the trailer metadata set before
  the throw; the client's call fails with a \<^verbatim>\<open>ClientError\<close> carrying the method path, that
  status, those details and the trailer metadata as the transport delivers it, in which
  the values set under a text key arrive joined by a comma and a space as one value and
  the values of a binary key arrive as they were set; \<^verbatim>\<open>onTrailer\<close> receives the same
  metadata once; and the signal of the server context is not aborted.
\<close>

theorem server_error_reaches_client:
  assumes "outcome h = Throw (ServerError status details)" and "status \<noteq> OK"
    and "steps h = before @ TrailerSet key vals # after"
    and "\<forall>vs. TrailerSet key vs \<notin> set after"
  shows "sent_trailer (dispatch h) = Some (trailer (dispatch h), status, details)
       \<and> getAll key (trailer (dispatch h)) = vals
       \<and> result (client_call path (frames (dispatch h)))
           = Some (Inl (ClientError path status details (delivered (trailer (dispatch h)))))
       \<and> onTrailer (client_call path (frames (dispatch h))) = [delivered (trailer (dispatch h))]
       \<and> getAll key (delivered (trailer (dispatch h)))
           = (if binary_key key then vals else [join '', '' vals])
       \<and> \<not> signal_aborted (dispatch h)"
proof -
  let ?c = "fold handler_step (steps h) new_server_call"
  let ?m = "trailer ?c"
  have f: "frames (dispatch h) = frames (sendHeader ?c) @ [TrailerFrame ?m status details]"
    using assms(1) by (rule dispatch_ServerError)
  have t: "trailer (dispatch h) = ?m"
    using assms(1)
    by (simp add: dispatch_def send_trailer_def Let_def handler_steps_keep new_server_call_def)
  have g: "map_of ?m key = Some vals" using assms(3,4) by (rule trailer_preserved)
  have "\<forall>f \<in> set (frames (new_server_call :: 'a server_call)). \<not> is_trailer f"
    by (simp add: new_server_call_def)
  then have n: "\<forall>f \<in> set (frames (sendHeader ?c)). \<not> is_trailer f"
    by (intro sendHeader_no_trailer handler_steps_no_trailer)
  have "sent_trailer (dispatch h) = Some (?m, status, details)"
    by (simp add: sent_trailer_def f)
  moreover have "getAll key (delivered ?m) = (if binary_key key then vals else [join '', '' vals])"
    using g by (simp add: getAll_def map_of_delivered)
  moreover note client_trailer_last [OF n assms(2), of path ?m details] g
    dispatch_ServerError(2) [OF assms(1)]
  ultimately show ?thesis by (simp add: f t getAll_def)
qed

lemma error_dispatch:
  "dispatch (testClientStream_error (TestRequest ''test-0'' # rest)) =
     \<lparr>header = [], trailer = [(''test'', [''test-value-1'', ''test-value-2''])],
      header_sent = True, signal_aborted = False,
      frames = [HeaderFrame [],
                TrailerFrame [(''test'', [''test-value-1'', ''test-value-2''])] NOT_FOUND ''test-0'']\<rparr>"
  by (simp add: dispatch_def testClientStream_error_def new_server_call_def send_trailer_def
        sendHeader_def)

lemma error_delivered:
  "delivered [(''test'', [''test-value-1'', ''test-value-2''])]
     = [(''test'', [''test-value-1, test-value-2''])]"
  by (simp add: delivered_def binary_key_def)

text \<open>
  Claim C6 as stated fails in the scenario of the test \<^verbatim>\<open>error\<close>: the handler sets the two
  values \<^verbatim>\<open>test-value-1\<close> and \<^verbatim>\<open>test-value-2\<close> under \<^verbatim>\<open>test\<close>, and the metadata of the client's
  error has the single value \<^verbatim>\<open>test-value-1, test-value-2\<close> there, as the snapshot of the
  test expects.
\<close>

theorem server_error_reaches_client_counterexample:
  "sent_trailer (dispatch (testClientStream_error [TestRequest ''test-0'', TestRequest ''test-1'']))
     = Some ([(''test'', [''test-value-1'', ''test-value-2''])], NOT_FOUND, ''test-0'')
   \<and> result (client_call test_path
         (frames (dispatch (testClientStream_error [TestRequest ''test-0'', TestRequest ''test-1'']))))
     = Some (Inl (ClientError test_path NOT_FOUND ''test-0''
                    [(''test'', [''test-value-1, test-value-2''])]))
   \<and> getAll ''test'' [(''test'', [''test-value-1, test-value-2''])]
       \<noteq> getAll ''test'' [(''test'', [''test-value-1'', ''test-value-2''])]"
  by (simp add: error_dispatch sent_trailer_def client_call_def new_client_call_def
        error_delivered getAll_def)

theorem server_error_reaches_client_witness:
  "NOT_FOUND \<noteq> OK
   \<and> (sent_trailer (dispatch (testClientStream_error [TestRequest ''test-0'']))
        = Some (trailer (dispatch (testClientStream_error [TestRequest ''test-0''])),
                NOT_FOUND, ''test-0'')
     \<and> getAll ''test'' (trailer (dispatch (testClientStream_error [TestRequest ''test-0''])))
        = [''test-value-1'', ''test-value-2'']
     \<and> result (client_call test_path (frames (dispatch (testClientStream_error [TestRequest ''test-0'']))))
        = Some (Inl (ClientError test_path NOT_FOUND ''test-0''
             (delivered (trailer (dispatch (testClientStream_error [TestRequest ''test-0'']))))))
     \<and> onTrailer (client_call test_path (frames (dispatch (testClientStream_error [TestRequest ''test-0'']))))
        = [delivered (trailer (dispatch (testClientStream_error [TestRequest ''test-0''])))]
     \<and> getAll ''test'' (delivered (trailer (dispatch (testClientStream_error [TestRequest ''test-0'']))))
        = (if binary_key ''test'' then [''test-value-1'', ''test-value-2'']
           else [join '', '' [''test-value-1'', ''test-value-2'']])
     \<and> \<not> signal_aborted (dispatch (testClientStream_error [TestRequest ''test-0''])))"
proof -
  let ?h = "testClientStream_error [TestRequest ''test-0'']"
  have a: "outcome ?h = Throw (ServerError NOT_FOUND ''test-0'')"
    by (simp add: testClientStream_error_def)
  have b: "NOT_FOUND \<noteq> OK" by simp
  have c: "steps ?h = [] @ TrailerSet ''test'' [''test-value-1'', ''test-value-2''] # []"
    by (simp add: testClientStream_error_def)
  have d: "\<forall>vs. TrailerSet ''test'' vs \<notin> set ([] :: TestResponse handler_action list)" by simp
  from b server_error_reaches_client [OF a b c d, of test_path] show ?thesis by (rule conjI)
qed

section \<open>Cancellation by the signal of the client\<close>

declare show_nat.simps [simp del]

lemma handler_settles_fields [simp]:
  "client (handler_settles k) = client k"
  "to_server (handler_settles k) = to_server k"
  "requestIterableFinish (handler_settles k) = requestIterableFinish k"
  "handler (handler_settles k) = handler k"
  "serverRequestStartDeferred (handler_settles k) = serverRequestStartDeferred k"
  by (simp_all add: handler_settles_def Let_def split: handler_state.splits)

lemma finish_Throw_signal [simp]:
  "signal_aborted (finish (Throw err) c) = signal_aborted c"
  by (cases err) (simp_all add: send_trailer_def Let_def)

lemma handler_settles_signal [simp]:
  "signal_aborted (server (handler_settles k)) = signal_aborted (server k)"
  by (simp add: handler_settles_def Let_def split: handler_state.splits)



lemma server_receive_fields [simp]:
  "client (server_receive f k) = client k"
  "to_server (server_receive f k) = to_server k"
  "requestIterableFinish (server_receive f k) = requestIterableFinish k"
  by (cases f; simp add: Let_def)+


lemma server_receive_Cancel_signal [simp]:
  "signal_aborted (server (server_receive Cancel k))"
  by (simp add: Let_def)










lemma call_run_append: "call_run (xs @ ys) k = call_run ys (call_run xs k)"
  by (simp add: call_run_def)





text \<open>
  The signal fires before anything has reached the server: the handler is invoked when
  the opening frame arrives and is rejected when the cancellation arrives after it.
\<close>

lemma cancel_before_handler_start:
  "call_run ([] @ SignalFires # [DeliverToServer, DeliverToServer]) new_streaming_call =
     \<lparr>client = new_client_call\<lparr>result := Some (Inl ClientAbortError)\<rparr>,
      next_index = 0, requestIterableFinish = True, to_server = [], to_client = [],
      server = new_server_call\<lparr>signal_aborted := True\<rparr>,
      server_requests = [], handler = Rejected AbortError,
      serverRequestStartDeferred = True, serverAbortDeferred = True\<rparr>"
  by (simp add: call_run_def new_streaming_call_def new_client_call_def new_server_call_def
        forever_def handler_settles_def isAbortError_def Let_def)


end
